theory Spec2Isabelle
  imports
    Main
    "HOL-Library.Word"
    "HOL-Library.Char_ord"
    "HOL-Library.List_Lexorder"
begin

section \<open>CoffeDB storage engine: values, errors and the environment\<close>

text \<open>
  The development embeds the storage package of CoffeDB: the engine
  (\<^verbatim>\<open>internal/storage/engine.go\<close>), the write-ahead log (\<^verbatim>\<open>internal/storage/wal.go\<close>), the
  skip-list memtable and the B-tree (the files of the package that declare \<^verbatim>\<open>Memtable\<close>
  and \<^verbatim>\<open>BTree\<close>). Go strings are byte strings, compared bytewise and lexicographically;
  they are modelled by \<^typ>\<open>string\<close> with the lexicographic order on lists of characters.

  A Go \<^verbatim>\<open>interface{}\<close> value carries a dynamic type and a payload. The dynamic types that
  occur in document bodies and filters are the JSON kinds together with every numeric type
  that \<^verbatim>\<open>toFloat64\<close> switches on. Floating-point numbers are kept as their IEEE-754 bit
  patterns; \<^verbatim>\<open>int\<close> and \<^verbatim>\<open>uint\<close> are 64 bits wide.
\<close>

datatype val =
    VNil
  | VBool bool
  | VString string
  | VFloat64 "64 word"
  | VFloat32 "32 word"
  | VInt "64 word"
  | VInt8 "8 word"
  | VInt16 "16 word"
  | VInt32 "32 word"
  | VInt64 "64 word"
  | VUint "64 word"
  | VUint8 "8 word"
  | VUint16 "16 word"
  | VUint32 "32 word"
  | VUint64 "64 word"
  | VList "val list"
  | VMap "(string \<times> val) list"

text \<open>
  Every way in which an operation of the package fails: the three error returns of
  \<^verbatim>\<open>WAL.WriteEntry\<close>, the errors built with \<^verbatim>\<open>fmt.Errorf\<close>, the decoder errors of
  encoding/gob that \<^verbatim>\<open>ReadEntries\<close> swallows, and the run-time panics of Go (comparison of
  two interface values of one uncomparable dynamic type, index out of range).
\<close>

datatype error =
    Wal_encode_failed
  | Wal_flush_failed
  | Wal_sync_failed
  | Key_not_found
  | Document_not_found
  | Index_already_exists
  | Gob_duplicate_type
  | Gob_eof
  | Panic_uncomparable
  | Panic_index_out_of_range

subsection \<open>IEEE-754 equality and the conversions to float64\<close>

definition f64_is_nan :: "64 word \<Rightarrow> bool" where
  "f64_is_nan x = (0x7FF0000000000000 < unat x mod 2 ^ 63)"

definition f64_eq :: "64 word \<Rightarrow> 64 word \<Rightarrow> bool" where
  "f64_eq x y =
     (\<not> f64_is_nan x \<and> \<not> f64_is_nan y \<and>
      (x = y \<or> (unat x mod 2 ^ 63 = 0 \<and> unat y mod 2 ^ 63 = 0)))"

definition f32_is_nan :: "32 word \<Rightarrow> bool" where
  "f32_is_nan x = (0x7F800000 < unat x mod 2 ^ 31)"

definition f32_eq :: "32 word \<Rightarrow> 32 word \<Rightarrow> bool" where
  "f32_eq x y =
     (\<not> f32_is_nan x \<and> \<not> f32_is_nan y \<and>
      (x = y \<or> (unat x mod 2 ^ 31 = 0 \<and> unat y mod 2 ^ 31 = 0)))"

fun bit_length :: "nat \<Rightarrow> nat" where
  "bit_length n = (if n = 0 then 0 else Suc (bit_length (n div 2)))"

declare bit_length.simps [simp del]

definition round_shift :: "nat \<Rightarrow> nat \<Rightarrow> nat" where
  \<comment> \<open>\<open>m / 2 ^ k\<close> rounded to the nearest integer, ties to even\<close>
  "round_shift m k =
     (let q = m div 2 ^ k; r = m mod 2 ^ k
      in if 2 ^ k < 2 * r \<or> (2 * r = 2 ^ k \<and> odd q) then q + 1 else q)"

definition f64_of_nat :: "nat \<Rightarrow> nat" where
  \<comment> \<open>the bit pattern of the double nearest to \<open>m\<close>, for \<open>m < 2 ^ 64\<close>; a mantissa
      that rounds up to \<open>2 ^ 53\<close> carries into the exponent field\<close>
  "f64_of_nat m =
     (if m = 0 then 0
      else let e = bit_length m - 1;
               mant = (if e \<le> 52 then m * 2 ^ (52 - e) else round_shift m (e - 52))
           in (e + 1023) * 2 ^ 52 + (mant - 2 ^ 52))"

definition f64_of_int :: "int \<Rightarrow> 64 word" where
  "f64_of_int n =
     (if n < 0 then of_nat (2 ^ 63 + f64_of_nat (nat (- n))) else of_nat (f64_of_nat (nat n)))"

definition f64_of_f32 :: "32 word \<Rightarrow> 64 word" where
  \<comment> \<open>the exact widening \<^verbatim>\<open>float64(val)\<close> of a float32\<close>
  "f64_of_f32 x =
     (let b = unat x; s = b div 2 ^ 31; e = (b div 2 ^ 23) mod 256; f = b mod 2 ^ 23;
          mag = (if e = 255 then 2047 * 2 ^ 52 + f * 2 ^ 29
                 else if e = 0 then
                   (if f = 0 then 0
                    else let l = bit_length f - 1
                         in (l + 874) * 2 ^ 52 + (f * 2 ^ (52 - l) - 2 ^ 52))
                 else (e + 896) * 2 ^ 52 + f * 2 ^ 29)
      in of_nat (s * 2 ^ 63 + mag))"

subsection \<open>The filter comparison of the engine\<close>

definition iface_eq :: "val \<Rightarrow> val \<Rightarrow> error + bool" where
  \<comment> \<open>Go's \<^verbatim>\<open>a == b\<close> on interface values: false for different dynamic types, the
      payloads' equality for one comparable type, a panic for one uncomparable type\<close>
  "iface_eq a b =
     (case a of
        VList _ \<Rightarrow> (case b of VList _ \<Rightarrow> Inl Panic_uncomparable | _ \<Rightarrow> Inr False)
      | VMap _ \<Rightarrow> (case b of VMap _ \<Rightarrow> Inl Panic_uncomparable | _ \<Rightarrow> Inr False)
      | VFloat64 x \<Rightarrow> (case b of VFloat64 y \<Rightarrow> Inr (f64_eq x y) | _ \<Rightarrow> Inr False)
      | VFloat32 x \<Rightarrow> (case b of VFloat32 y \<Rightarrow> Inr (f32_eq x y) | _ \<Rightarrow> Inr False)
      | _ \<Rightarrow> Inr (a = b))"

fun toFloat64 :: "val \<Rightarrow> 64 word \<times> bool" where
  "toFloat64 (VFloat64 v) = (v, True)"
| "toFloat64 (VFloat32 v) = (f64_of_f32 v, True)"
| "toFloat64 (VInt v) = (f64_of_int (sint v), True)"
| "toFloat64 (VInt8 v) = (f64_of_int (sint v), True)"
| "toFloat64 (VInt16 v) = (f64_of_int (sint v), True)"
| "toFloat64 (VInt32 v) = (f64_of_int (sint v), True)"
| "toFloat64 (VInt64 v) = (f64_of_int (sint v), True)"
| "toFloat64 (VUint v) = (f64_of_int (uint v), True)"
| "toFloat64 (VUint8 v) = (f64_of_int (uint v), True)"
| "toFloat64 (VUint16 v) = (f64_of_int (uint v), True)"
| "toFloat64 (VUint32 v) = (f64_of_int (uint v), True)"
| "toFloat64 (VUint64 v) = (f64_of_int (uint v), True)"
| "toFloat64 _ = (0, False)"

fun as_string :: "val \<Rightarrow> string \<times> bool" where
  \<comment> \<open>the type assertion \<^verbatim>\<open>v.(string)\<close>\<close>
  "as_string (VString s) = (s, True)"
| "as_string _ = ([], False)"

fun as_bool :: "val \<Rightarrow> bool \<times> bool" where
  \<comment> \<open>the type assertion \<^verbatim>\<open>v.(bool)\<close>\<close>
  "as_bool (VBool c) = (c, True)"
| "as_bool _ = (False, False)"

definition valuesEqual :: "val \<Rightarrow> val \<Rightarrow> error + bool" where
  "valuesEqual a b =
     (case iface_eq a b of
        Inl e \<Rightarrow> Inl e
      | Inr True \<Rightarrow> Inr True
      | Inr False \<Rightarrow>
          (let (aFloat, aIsNum) = toFloat64 a; (bFloat, bIsNum) = toFloat64 b
           in if aIsNum \<and> bIsNum then Inr (f64_eq aFloat bFloat)
              else let (aStr, aIsStr) = as_string a; (bStr, bIsStr) = as_string b
                   in if aIsStr \<and> bIsStr then Inr (aStr = bStr)
                      else let (aBool, aIsBool) = as_bool a; (bBool, bIsBool) = as_bool b
                           in if aIsBool \<and> bIsBool then Inr (aBool = bBool)
                              else Inr False))"


section \<open>The skip-list memtable\<close>

text \<open>
  The engine stores pointers to documents in the memtable and in the B-tree, both of which
  hold \<^verbatim>\<open>interface{}\<close> values. A stored value is a document, a plain value or a byte
  slice; the engine's type assertions \<^verbatim>\<open>value.(*Document)\<close> become case distinctions.
  Time stamps are integers (nanoseconds), the version counter is an \<^verbatim>\<open>int64\<close>.
\<close>

record Document =
  ID :: string
  Data :: "string \<rightharpoonup> val"
  CreatedAt :: int
  UpdatedAt :: int
  Version :: "64 word"

datatype any = ADoc Document | AVal val | ABytes "8 word list"

text \<open>
  A skip list is kept as its level-0 chain, in list order; every node carries the length of
  its \<^verbatim>\<open>forward\<close> array. In every list built by \<^verbatim>\<open>NewMemtable\<close>, \<^verbatim>\<open>Put\<close> and
  \<^verbatim>\<open>Delete\<close> the pointer \<^verbatim>\<open>forward[i]\<close> of a node leads to the next node of the chain
  whose array is longer than \<open>i\<close>, and that is how \<open>forward\<close> is computed here. Positions
  count from the header: position \<open>0\<close> is the header (with \<open>maxLevel\<close> levels), position
  \<open>Suc q\<close> is the node \<open>ns ! q\<close>; \<open>None\<close> is the nil pointer. The search loops of
  \<^verbatim>\<open>Put\<close>, \<^verbatim>\<open>Get\<close> and \<^verbatim>\<open>Delete\<close> run over these pointers level by level, as in the
  source. Linking a new node behind \<^verbatim>\<open>update[i]\<close> on each of its levels puts it into the
  chain behind \<^verbatim>\<open>update[0]\<close>; unlinking a node on each of its levels takes it out of the
  chain.
\<close>

record SkipListNode =
  n_key :: string
  n_value :: any
  n_levels :: nat
  n_ttl :: "int option"

record Memtable =
  mt_nodes :: "SkipListNode list"
  mt_level :: nat
  mt_size :: int
  mt_maxSize :: int
  mt_count :: int
  mt_rand :: "bool list"

definition maxLevel :: nat where
  "maxLevel = 32"

text \<open>
  \<open>mt_rand\<close> is the sequence of outcomes of \<^verbatim>\<open>mt.rand.Float64() < probability\<close> that the
  generator seeded in \<^verbatim>\<open>NewMemtable\<close> will produce; a call consumes the outcomes it looks
  at, and an exhausted sequence answers false.
\<close>

definition NewMemtable :: "int \<Rightarrow> bool list \<Rightarrow> Memtable" where
  "NewMemtable maxSize coins =
     \<lparr>mt_nodes = [], mt_level = 0, mt_size = 0, mt_maxSize = maxSize, mt_count = 0,
      mt_rand = coins\<rparr>"

definition forward :: "SkipListNode list \<Rightarrow> nat \<Rightarrow> nat \<Rightarrow> nat option" where
  "forward ns p i =
     (let q = p + length (takeWhile (\<lambda>n. n_levels n \<le> i) (drop p ns))
      in if q < length ns then Some (Suc q) else None)"

lemma forward_Some: "forward ns p i = Some q \<Longrightarrow> p < q \<and> q \<le> length ns"
  by (auto simp: forward_def Let_def split: if_splits)

function walk :: "SkipListNode list \<Rightarrow> string \<Rightarrow> nat \<Rightarrow> nat \<Rightarrow> nat" where
  \<comment> \<open>\<^verbatim>\<open>for current.forward[i] != nil && current.forward[i].key < key\<close>\<close>
  "walk ns k i cur =
     (case forward ns cur i of
        None \<Rightarrow> cur
      | Some q \<Rightarrow> if n_key (ns ! (q - 1)) < k then walk ns k i q else cur)"
  by pat_completeness auto
termination
  by (relation "measure (\<lambda>(ns, k, i, cur). length ns - cur)") (auto dest: forward_Some)

declare walk.simps [simp del]

fun descend :: "SkipListNode list \<Rightarrow> string \<Rightarrow> nat \<Rightarrow> nat \<Rightarrow> nat" where
  \<comment> \<open>\<^verbatim>\<open>for i := mt.level; i >= 0; i--\<close>; the result is \<^verbatim>\<open>update[0]\<close>\<close>
  "descend ns k 0 cur = walk ns k 0 cur"
| "descend ns k (Suc i) cur = descend ns k i (walk ns k (Suc i) cur)"

fun randomLevel :: "nat \<Rightarrow> bool list \<Rightarrow> nat \<times> bool list" where
  "randomLevel level [] = (level, [])"
| "randomLevel level (c # coins) =
     (if level < maxLevel - 1
      then (if c then randomLevel (Suc level) coins else (level, coins))
      else (level, c # coins))"

fun estimateValueSize :: "any \<Rightarrow> int" where
  "estimateValueSize (AVal (VString v)) = int (length v)"
| "estimateValueSize (ABytes v) = int (length v)"
| "estimateValueSize (AVal (VInt _)) = 8"
| "estimateValueSize (AVal (VInt32 _)) = 8"
| "estimateValueSize (AVal (VInt64 _)) = 8"
| "estimateValueSize (AVal (VFloat32 _)) = 8"
| "estimateValueSize (AVal (VFloat64 _)) = 8"
| "estimateValueSize (AVal (VBool _)) = 1"
| "estimateValueSize _ = 64"

definition Memtable_Put :: "Memtable \<Rightarrow> string \<Rightarrow> any \<Rightarrow> Memtable" where
  "Memtable_Put mt k v =
     (let ns = mt_nodes mt;
          cur = descend ns k (mt_level mt) 0;
          current = forward ns cur 0
      in if current \<noteq> None \<and> n_key (ns ! (the current - 1)) = k
         then mt\<lparr>mt_nodes := ns[the current - 1 := (ns ! (the current - 1))\<lparr>n_value := v\<rparr>]\<rparr>
         else let (newLevel, coins) = randomLevel 0 (mt_rand mt);
                  newNode = \<lparr>n_key = k, n_value = v, n_levels = newLevel + 1, n_ttl = None\<rparr>
              in mt\<lparr>mt_nodes := take cur ns @ newNode # drop cur ns,
                    mt_level := max (mt_level mt) newLevel,
                    mt_count := mt_count mt + 1,
                    mt_size := mt_size mt + int (length k) + estimateValueSize v,
                    mt_rand := coins\<rparr>)"

definition Memtable_Get :: "int \<Rightarrow> Memtable \<Rightarrow> string \<Rightarrow> any option" where
  \<comment> \<open>\<open>now\<close> is the reading of \<^verbatim>\<open>time.Now()\<close>; \<open>None\<close> is the result \<^verbatim>\<open>(nil, false)\<close>\<close>
  "Memtable_Get now mt k =
     (let ns = mt_nodes mt;
          cur = descend ns k (mt_level mt) 0;
          current = forward ns cur 0
      in if current \<noteq> None \<and> n_key (ns ! (the current - 1)) = k
         then (case n_ttl (ns ! (the current - 1)) of
                 Some t \<Rightarrow> if t < now then None else Some (n_value (ns ! (the current - 1)))
               | None \<Rightarrow> Some (n_value (ns ! (the current - 1))))
         else None)"

primrec lower_level :: "SkipListNode list \<Rightarrow> nat \<Rightarrow> nat" where
  \<comment> \<open>\<^verbatim>\<open>for mt.level > 0 && mt.header.forward[mt.level] == nil { mt.level-- }\<close>\<close>
  "lower_level ns 0 = 0"
| "lower_level ns (Suc l) = (if forward ns 0 (Suc l) = None then lower_level ns l else Suc l)"

definition Memtable_Delete :: "Memtable \<Rightarrow> string \<Rightarrow> bool \<times> Memtable" where
  "Memtable_Delete mt k =
     (let ns = mt_nodes mt;
          cur = descend ns k (mt_level mt) 0;
          current = forward ns cur 0
      in if current \<noteq> None \<and> n_key (ns ! (the current - 1)) = k
         then let ns' = take (the current - 1) ns @ drop (the current) ns
              in (True,
                  mt\<lparr>mt_nodes := ns',
                     mt_level := lower_level ns' (mt_level mt),
                     mt_count := mt_count mt - 1,
                     mt_size := mt_size mt -
                       (int (length k) + estimateValueSize (n_value (ns ! (the current - 1))))\<rparr>)
         else (False, mt))"

definition HasPrefix :: "string \<Rightarrow> string \<Rightarrow> bool" where
  \<comment> \<open>\<^verbatim>\<open>strings.HasPrefix(s, prefix)\<close>, and the test
      \<^verbatim>\<open>len(key) >= len(prefix) && key[:len(prefix)] == prefix\<close> of the B-tree\<close>
  "HasPrefix s p = (length p \<le> length s \<and> take (length p) s = p)"

fun range_loop ::
  "int \<Rightarrow> string \<Rightarrow> (string \<Rightarrow> any \<Rightarrow> 's \<Rightarrow> bool \<times> 's) \<Rightarrow> SkipListNode list \<Rightarrow> 's \<Rightarrow> 's"
where
  "range_loop now p fn [] s = s"
| "range_loop now p fn (n # ns) s =
     (if HasPrefix (n_key n) p \<and> (case n_ttl n of None \<Rightarrow> True | Some t \<Rightarrow> now < t)
      then (case fn (n_key n) (n_value n) s of
              (True, s') \<Rightarrow> range_loop now p fn ns s'
            | (False, s') \<Rightarrow> s')
      else range_loop now p fn ns s)"

definition Memtable_Range ::
  "int \<Rightarrow> Memtable \<Rightarrow> string \<Rightarrow> (string \<Rightarrow> any \<Rightarrow> 's \<Rightarrow> bool \<times> 's) \<Rightarrow> 's \<Rightarrow> 's"
where
  \<comment> \<open>the visitor \<open>fn\<close> threads the variables it captures as a state \<open>'s\<close>\<close>
  "Memtable_Range now mt p fn s = range_loop now p fn (mt_nodes mt) s"

definition Memtable_Size :: "Memtable \<Rightarrow> int" where
  "Memtable_Size mt = mt_size mt"

definition Memtable_Count :: "Memtable \<Rightarrow> int" where
  "Memtable_Count mt = mt_count mt"

definition Memtable_IsEmpty :: "Memtable \<Rightarrow> bool" where
  "Memtable_IsEmpty mt = (mt_count mt = 0)"

section \<open>The B-tree\<close>

text \<open>
  A node holds the parallel slices \<^verbatim>\<open>Keys\<close> and \<^verbatim>\<open>Values\<close> and, when it is not a leaf, its
  children. The \<^verbatim>\<open>Parent\<close> back pointer and the \<^verbatim>\<open>Modified\<close> flag are written but never
  read by the package and are left out. The code updates nodes in place; the functions
  below return the updated node. An index or slice expression out of range is the panic
  \<open>Panic_index_out_of_range\<close>.
\<close>

definition btreeOrder :: nat where
  "btreeOrder = 256"

datatype BTreeNode =
  BTreeNode (IsLeaf: bool) (Keys: "string list") (Values: "any list") (Children: "BTreeNode list")

record BTree =
  bt_root :: "BTreeNode option"

text \<open>
  \<^verbatim>\<open>sort.SearchStrings(a, x)\<close> is \<^verbatim>\<open>sort.Search(len(a), func(i) bool { return a[i] >= x })\<close>,
  the binary search of the Go library: it halves the interval \<open>[i, j)\<close> until it is empty.
\<close>

function search_loop :: "(nat \<Rightarrow> bool) \<Rightarrow> nat \<Rightarrow> nat \<Rightarrow> nat" where
  "search_loop f i j =
     (if i < j
      then (let h = (i + j) div 2
            in if \<not> f h then search_loop f (h + 1) j else search_loop f i h)
      else i)"
  by pat_completeness auto
termination
  by (relation "measure (\<lambda>(f, i, j). j - i)") auto

declare search_loop.simps [simp del]

definition SearchStrings :: "string list \<Rightarrow> string \<Rightarrow> nat" where
  "SearchStrings a x = search_loop (\<lambda>i. x \<le> a ! i) 0 (length a)"

definition insertIntoLeaf :: "BTreeNode \<Rightarrow> string \<Rightarrow> any \<Rightarrow> error + BTreeNode" where
  "insertIntoLeaf node k v =
     (let pos = SearchStrings (Keys node) k
      in if pos < length (Keys node) \<and> Keys node ! pos = k
         then (if pos < length (Values node)
               then Inr (BTreeNode (IsLeaf node) (Keys node) ((Values node)[pos := v])
                          (Children node))
               else Inl Panic_index_out_of_range)
         else (if pos \<le> length (Values node)
               then Inr (BTreeNode (IsLeaf node)
                          (take pos (Keys node) @ k # drop pos (Keys node))
                          (take pos (Values node) @ v # drop pos (Values node))
                          (Children node))
               else Inl Panic_index_out_of_range))"

definition findChildIndex :: "BTreeNode \<Rightarrow> string \<Rightarrow> nat" where
  "findChildIndex node k = SearchStrings (Keys node) k"

definition splitChild :: "BTreeNode \<Rightarrow> nat \<Rightarrow> error + BTreeNode" where
  "splitChild parent childIndex =
     (if childIndex < length (Children parent)
      then (let child = Children parent ! childIndex;
                midIndex = length (Keys child) div 2
            in if midIndex < length (Keys child) \<and> midIndex < length (Values child) \<and>
                  (IsLeaf child \<or> midIndex + 1 \<le> length (Children child)) \<and>
                  childIndex \<le> length (Keys parent) \<and> childIndex \<le> length (Values parent)
               then (let newNode = BTreeNode (IsLeaf child)
                                     (drop (midIndex + 1) (Keys child))
                                     (drop (midIndex + 1) (Values child))
                                     (if IsLeaf child then []
                                      else drop (midIndex + 1) (Children child));
                         midKey = Keys child ! midIndex;
                         midValue = Values child ! midIndex;
                         child' = BTreeNode (IsLeaf child)
                                    (take midIndex (Keys child))
                                    (take midIndex (Values child))
                                    (if IsLeaf child then Children child
                                     else take (midIndex + 1) (Children child))
                     in Inr (BTreeNode (IsLeaf parent)
                              (take childIndex (Keys parent) @ midKey #
                                 drop childIndex (Keys parent))
                              (take childIndex (Values parent) @ midValue #
                                 drop childIndex (Values parent))
                              (take childIndex (Children parent) @ child' # newNode #
                                 drop (childIndex + 1) (Children parent))))
               else Inl Panic_index_out_of_range)
      else Inl Panic_index_out_of_range)"

lemma size_child: "i < length (Children node) \<Longrightarrow> size (Children node ! i) < size node"
proof (cases node)
  case (BTreeNode l ks vs cs)
  assume "i < length (Children node)"
  with BTreeNode have "cs ! i \<in> set cs" by simp
  then have "size (cs ! i) \<le> size_list size cs" by (simp add: size_list_estimation')
  with BTreeNode show ?thesis by simp
qed

function insert_node :: "BTreeNode \<Rightarrow> string \<Rightarrow> any \<Rightarrow> error + BTreeNode" where
  \<comment> \<open>\<^verbatim>\<open>BTree.insert\<close>\<close>
  "insert_node node k v =
     (if IsLeaf node then insertIntoLeaf node k v
      else if findChildIndex node k < length (Children node)
      then (case insert_node (Children node ! findChildIndex node k) k v of
              Inl err \<Rightarrow> Inl err
            | Inr child \<Rightarrow>
                (let node' = BTreeNode (IsLeaf node) (Keys node) (Values node)
                               ((Children node)[findChildIndex node k := child])
                 in if btreeOrder - 1 < length (Keys child)
                    then splitChild node' (findChildIndex node k)
                    else Inr node'))
      else Inl Panic_index_out_of_range)"
  by pat_completeness auto
termination
  by (relation "measure (\<lambda>(node, k, v). size node)") (auto intro: size_child)

declare insert_node.simps [simp del]

function search_node :: "BTreeNode \<Rightarrow> string \<Rightarrow> error + any" where
  \<comment> \<open>\<^verbatim>\<open>BTree.search\<close>\<close>
  "search_node node k =
     (if SearchStrings (Keys node) k < length (Keys node) \<and>
         Keys node ! SearchStrings (Keys node) k = k
      then (if SearchStrings (Keys node) k < length (Values node)
            then Inr (Values node ! SearchStrings (Keys node) k)
            else Inl Panic_index_out_of_range)
      else if IsLeaf node then Inl Key_not_found
      else if SearchStrings (Keys node) k < length (Children node)
      then search_node (Children node ! SearchStrings (Keys node) k) k
      else Inl Panic_index_out_of_range)"
  by pat_completeness auto
termination
  by (relation "measure (\<lambda>(node, k). size node)") (auto intro: size_child)

declare search_node.simps [simp del]

fun leaf_scan :: "string list \<Rightarrow> any list \<Rightarrow> string \<Rightarrow> any list \<Rightarrow> error + any list" where
  \<comment> \<open>the loop of \<^verbatim>\<open>rangeSearch\<close> over the keys of a leaf; the second list is what is left
      of \<^verbatim>\<open>node.Values\<close> from the current index on\<close>
  "leaf_scan [] vs p results = Inr results"
| "leaf_scan (k # ks) vs p results =
     (if HasPrefix k p
      then (case vs of
              [] \<Rightarrow> Inl Panic_index_out_of_range
            | v # vs' \<Rightarrow> leaf_scan ks vs' p (results @ [v]))
      else leaf_scan ks (tl vs) p results)"

function rangeSearch :: "BTreeNode \<Rightarrow> string \<Rightarrow> any list \<Rightarrow> error + any list" where
  "rangeSearch node p results =
     (if IsLeaf node then leaf_scan (Keys node) (Values node) p results
      else (case fold (\<lambda>i r. case r of
                          Inl err \<Rightarrow> Inl err
                        | Inr res \<Rightarrow>
                            if p \<le> Keys node ! i
                            then (if i < length (Children node)
                                  then rangeSearch (Children node ! i) p res
                                  else Inl Panic_index_out_of_range)
                            else Inr res)
                   [0..<length (Keys node)] (Inr results) of
              Inl err \<Rightarrow> Inl err
            | Inr res \<Rightarrow>
                if 0 < length (Children node)
                then rangeSearch (Children node ! (length (Children node) - 1)) p res
                else Inr res))"
  by pat_completeness auto
termination
  by (relation "measure (\<lambda>(node, p, results). size node)") (auto intro: size_child)

declare rangeSearch.simps [simp del]

definition NewBTree :: "BTreeNode option \<Rightarrow> BTree" where
  \<comment> \<open>the argument is the root stored in the file \<^verbatim>\<open>data.db\<close>, \<open>None\<close> for an empty file;
      \<^verbatim>\<open>loadRoot\<close> then creates an empty leaf\<close>
  "NewBTree stored =
     (case stored of
        None \<Rightarrow> \<lparr>bt_root = Some (BTreeNode True [] [] [])\<rparr>
      | Some r \<Rightarrow> \<lparr>bt_root = Some r\<rparr>)"

definition BTree_Put :: "BTree \<Rightarrow> string \<Rightarrow> any \<Rightarrow> error + BTree" where
  "BTree_Put bt k v =
     (case bt_root bt of
        None \<Rightarrow> Inr (bt\<lparr>bt_root := Some (BTreeNode True [k] [v] [])\<rparr>)
      | Some r \<Rightarrow>
          (case insert_node r k v of
             Inl err \<Rightarrow> Inl err
           | Inr r' \<Rightarrow> Inr (bt\<lparr>bt_root := Some r'\<rparr>)))"

definition BTree_Get :: "BTree \<Rightarrow> string \<Rightarrow> error + any" where
  "BTree_Get bt k =
     (case bt_root bt of
        None \<Rightarrow> Inl Key_not_found
      | Some r \<Rightarrow> search_node r k)"

definition BTree_Range :: "BTree \<Rightarrow> string \<Rightarrow> error + any list" where
  "BTree_Range bt p =
     (case bt_root bt of
        None \<Rightarrow> Inr []
      | Some r \<Rightarrow> rangeSearch r p [])"

section \<open>The write-ahead log\<close>

datatype WALEntryType = WALPut | WALDelete | WALTransaction

record WALEntry =
  entry_Type :: WALEntryType
  entry_Key :: string
  entry_Value :: "any option"
  entry_Timestamp :: int
  entry_TxnID :: string

text \<open>
  The log file is a stream of encoding/gob messages. A gob stream is self-describing: before
  the first value of a type an \<^verbatim>\<open>Encoder\<close> transmits the definition of that type, once per
  \<^verbatim>\<open>Encoder\<close>; a \<^verbatim>\<open>Decoder\<close> records the definitions it receives and fails with
  ``gob: duplicate type received'' on a definition for a type it already knows, and with
  \<^verbatim>\<open>io.EOF\<close> at the end of the input. Only the types that decide the result are kept: the
  struct \<^verbatim>\<open>WALEntry\<close>, whose definition opens the output of every fresh encoder, and the
  registered type \<^verbatim>\<open>*Document\<close> of an interface value.
\<close>

datatype gob_type = Gob_WALEntry | Gob_Document

datatype gob_message = Gob_type_definition gob_type | Gob_value WALEntry

record Encoder =
  enc_sent :: "gob_type list"

record Decoder =
  dec_input :: "gob_message list"
  dec_wireType :: "gob_type list"

definition NewEncoder :: Encoder where
  "NewEncoder = \<lparr>enc_sent = []\<rparr>"

definition NewDecoder :: "gob_message list \<Rightarrow> Decoder" where
  "NewDecoder file = \<lparr>dec_input = file, dec_wireType = []\<rparr>"

definition entry_types :: "WALEntry \<Rightarrow> gob_type list" where
  "entry_types entry =
     Gob_WALEntry # (case entry_Value entry of Some (ADoc _) \<Rightarrow> [Gob_Document] | _ \<Rightarrow> [])"

definition Encode :: "Encoder \<Rightarrow> WALEntry \<Rightarrow> gob_message list \<times> Encoder" where
  \<comment> \<open>the messages written, and the encoder afterwards\<close>
  "Encode enc entry =
     (let new = filter (\<lambda>t. t \<notin> set (enc_sent enc)) (entry_types entry)
      in (map Gob_type_definition new @ [Gob_value entry],
          enc\<lparr>enc_sent := enc_sent enc @ new\<rparr>))"

fun decode_messages ::
  "gob_type list \<Rightarrow> gob_message list \<Rightarrow> (error + WALEntry) \<times> gob_message list \<times> gob_type list"
where
  "decode_messages known [] = (Inl Gob_eof, [], known)"
| "decode_messages known (Gob_value entry # rest) = (Inr entry, rest, known)"
| "decode_messages known (Gob_type_definition t # rest) =
     (if t \<in> set known then (Inl Gob_duplicate_type, rest, known)
      else decode_messages (known @ [t]) rest)"

definition Decode :: "Decoder \<Rightarrow> (error + WALEntry) \<times> Decoder" where
  "Decode dec =
     (case decode_messages (dec_wireType dec) (dec_input dec) of
        (r, rest, known) \<Rightarrow> (r, \<lparr>dec_input = rest, dec_wireType = known\<rparr>))"

lemma decode_messages_length:
  "decode_messages known ms = (Inr entry, rest, known') \<Longrightarrow> length rest < length ms"
  by (induction known ms rule: decode_messages.induct) (auto split: if_splits)

record WAL =
  wal_file :: "gob_message list"
  wal_writer :: "gob_message list"

definition NewWAL :: "gob_message list \<Rightarrow> WAL" where
  \<comment> \<open>the argument is the content of \<^verbatim>\<open>wal.log\<close>, opened for appending; \<open>wal_writer\<close> is
      what the \<^verbatim>\<open>bufio.Writer\<close> holds and has not flushed\<close>
  "NewWAL file = \<lparr>wal_file = file, wal_writer = []\<rparr>"

text \<open>
  What the outside world does to one \<^verbatim>\<open>WriteEntry\<close>: every step succeeds, or the encoding,
  the flush of the buffer or the sync of the file fails. The encoder writes into the
  \<^verbatim>\<open>bufio.Writer\<close> of the log, which all calls share. An encoding fails on the value (gob
  rejects a body that holds a value of an unregistered type, as a nested list or map), after
  the encoder has written its type definitions: they stay in the buffer, and the next
  flush writes them ahead of the next record. Whether the encoding fails is taken from the
  environment. A failed flush is taken to write nothing and to keep the buffer; the
  \<^verbatim>\<open>bufio.Writer\<close> then refuses every later write, so that in the runs of the code every
  later outcome is a failure. After a failed sync the record has reached the file.
\<close>

datatype io_outcome = Io_ok | Encode_fails | Flush_fails | Sync_fails

definition WriteEntry :: "io_outcome \<Rightarrow> WAL \<Rightarrow> WALEntry \<Rightarrow> error option \<times> WAL" where
  "WriteEntry io w entry =
     (let encoder = NewEncoder;
          buffered = wal_writer w @ fst (Encode encoder entry)
      in case io of
           Encode_fails \<Rightarrow>
             (Some Wal_encode_failed,
              w\<lparr>wal_writer := wal_writer w @ map Gob_type_definition (entry_types entry)\<rparr>)
         | Flush_fails \<Rightarrow> (Some Wal_flush_failed, w\<lparr>wal_writer := buffered\<rparr>)
         | Sync_fails \<Rightarrow>
             (Some Wal_sync_failed, w\<lparr>wal_file := wal_file w @ buffered, wal_writer := []\<rparr>)
         | Io_ok \<Rightarrow> (None, w\<lparr>wal_file := wal_file w @ buffered, wal_writer := []\<rparr>))"

function read_loop :: "Decoder \<Rightarrow> WALEntry list \<Rightarrow> WALEntry list" where
  \<comment> \<open>\<^verbatim>\<open>for { if err := decoder.Decode(&entry); err != nil { break }; entries = append(entries, entry) }\<close>\<close>
  "read_loop decoder entries =
     (case Decode decoder of
        (Inl err, _) \<Rightarrow> entries
      | (Inr entry, decoder') \<Rightarrow> read_loop decoder' (entries @ [entry]))"
  by pat_completeness auto
termination
  by (relation "measure (\<lambda>(decoder, entries). length (dec_input decoder))")
    (auto simp: Decode_def split: prod.splits dest: decode_messages_length)

declare read_loop.simps [simp del]

definition ReadEntries :: "WAL \<Rightarrow> WALEntry list" where
  "ReadEntries w = read_loop (NewDecoder (wal_file w)) []"

section \<open>The secondary index and the engine\<close>

record Index =
  idx_field :: string
  idx_entries :: "string \<rightharpoonup> string list"

definition NewIndex :: "string \<Rightarrow> Index" where
  "NewIndex field = \<lparr>idx_field = field, idx_entries = Map.empty\<rparr>"

definition Index_Put :: "Index \<Rightarrow> string \<Rightarrow> string \<Rightarrow> Index" where
  "Index_Put idx v docID =
     (let ids = (case idx_entries idx v of None \<Rightarrow> [] | Some l \<Rightarrow> l)
      in if docID \<in> set ids then idx
         else idx\<lparr>idx_entries := (idx_entries idx)(v \<mapsto> ids @ [docID])\<rparr>)"

definition Index_Get :: "Index \<Rightarrow> string \<Rightarrow> string list" where
  "Index_Get idx v = (case idx_entries idx v of Some docIDs \<Rightarrow> docIDs | None \<Rightarrow> [])"

definition Index_Delete :: "Index \<Rightarrow> string \<Rightarrow> Index" where
  \<comment> \<open>every bucket loses the first occurrence of \<open>docID\<close>; an empty bucket is deleted\<close>
  "Index_Delete idx docID =
     idx\<lparr>idx_entries :=
       (\<lambda>v. case idx_entries idx v of
               None \<Rightarrow> None
             | Some docIDs \<Rightarrow>
                 (if remove1 docID docIDs = [] then None else Some (remove1 docID docIDs)))\<rparr>"

text \<open>
  \<^verbatim>\<open>fmt.Sprintf("%v", value)\<close> prints a string as it is, a boolean as \<^verbatim>\<open>true\<close> or
  \<^verbatim>\<open>false\<close>, an integer in decimal and nil as \<^verbatim>\<open><nil>\<close>. The renderings of floating-point
  numbers, lists and maps are those of the fmt package; they are a parameter \<open>other\<close> of
  the model.
\<close>

fun show_nat :: "nat \<Rightarrow> string" where
  "show_nat n =
     (if n < 10 then [''0123456789'' ! n]
      else show_nat (n div 10) @ [''0123456789'' ! (n mod 10)])"

declare show_nat.simps [simp del]

definition show_int :: "int \<Rightarrow> string" where
  "show_int i = (if i < 0 then CHR ''-'' # show_nat (nat (- i)) else show_nat (nat i))"

fun Sprintf_v :: "(val \<Rightarrow> string) \<Rightarrow> val \<Rightarrow> string" where
  "Sprintf_v other VNil = ''<nil>''"
| "Sprintf_v other (VBool c) = (if c then ''true'' else ''false'')"
| "Sprintf_v other (VString s) = s"
| "Sprintf_v other (VInt w) = show_int (sint w)"
| "Sprintf_v other (VInt8 w) = show_int (sint w)"
| "Sprintf_v other (VInt16 w) = show_int (sint w)"
| "Sprintf_v other (VInt32 w) = show_int (sint w)"
| "Sprintf_v other (VInt64 w) = show_int (sint w)"
| "Sprintf_v other (VUint w) = show_nat (unat w)"
| "Sprintf_v other (VUint8 w) = show_nat (unat w)"
| "Sprintf_v other (VUint16 w) = show_nat (unat w)"
| "Sprintf_v other (VUint32 w) = show_nat (unat w)"
| "Sprintf_v other (VUint64 w) = show_nat (unat w)"
| "Sprintf_v other v = other v"

text \<open>
  Of the configuration the engine reads \<^verbatim>\<open>MemtableSize\<close> (and, for the compaction ticker
  and the file names, \<^verbatim>\<open>CompactionInterval\<close> and \<^verbatim>\<open>DataDir\<close>). The environment of a call
  is the reading of the clock, the outcome of the write to the log and the fmt package's
  rendering of floats and composite values.
\<close>

record StorageConfig =
  MemtableSize :: int

record env =
  env_now :: int
  env_io :: io_outcome
  env_fmt :: "val \<Rightarrow> string"

text \<open>
  \<open>flushes_spawned\<close> counts the goroutines started by \<^verbatim>\<open>go e.flushMemtable()\<close> that have
  not yet run; each of them takes the engine's lock when it runs, so a flush happens between
  two operations of the engine.
\<close>

record Engine =
  config :: StorageConfig
  memtable :: Memtable
  wal :: WAL
  btree :: BTree
  indexes :: "string \<rightharpoonup> Index"
  compacting :: bool
  flushes_spawned :: nat

fun matchesFilter :: "Document \<Rightarrow> (string \<times> val) list \<Rightarrow> error + bool" where
  \<comment> \<open>the filter \<open>flt\<close> is listed in the order in which \<^verbatim>\<open>range filter\<close> visits it\<close>
  "matchesFilter doc [] = Inr True"
| "matchesFilter doc ((k, v) # flt) =
     (case Data doc k of
        None \<Rightarrow> Inr False
      | Some docValue \<Rightarrow>
          (case valuesEqual docValue v of
             Inl err \<Rightarrow> Inl err
           | Inr False \<Rightarrow> Inr False
           | Inr True \<Rightarrow> matchesFilter doc flt))"

definition updateIndexes ::
  "(val \<Rightarrow> string) \<Rightarrow> (string \<rightharpoonup> Index) \<Rightarrow> string \<Rightarrow> string \<Rightarrow> Document \<Rightarrow> (string \<rightharpoonup> Index)"
where
  "updateIndexes other idxs collection docID doc =
     (\<lambda>indexKey.
        case idxs indexKey of
          None \<Rightarrow> None
        | Some index \<Rightarrow>
            if length collection < length indexKey \<and>
               take (length collection) indexKey = collection
            then (let field = drop (length collection + 1) indexKey
                  in case Data doc field of
                       Some v \<Rightarrow> Some (Index_Put index (Sprintf_v other v) docID)
                     | None \<Rightarrow> Some index)
            else Some index)"

definition removeFromIndexes ::
  "(string \<rightharpoonup> Index) \<Rightarrow> string \<Rightarrow> string \<Rightarrow> (string \<rightharpoonup> Index)"
where
  "removeFromIndexes idxs collection docID =
     (\<lambda>indexKey.
        case idxs indexKey of
          None \<Rightarrow> None
        | Some index \<Rightarrow>
            if length collection < length indexKey \<and>
               take (length collection) indexKey = collection
            then Some (Index_Delete index docID)
            else Some index)"

definition Engine_Put ::
  "env \<Rightarrow> Engine \<Rightarrow> string \<Rightarrow> string \<Rightarrow> (string \<rightharpoonup> val) \<Rightarrow> error option \<times> Engine"
where
  "Engine_Put env e collection docID data =
     (let key = collection @ '':'' @ docID;
          doc = \<lparr>ID = docID, Data = data, CreatedAt = env_now env, UpdatedAt = env_now env,
                 Version = 1\<rparr>;
          doc = (case Memtable_Get (env_now env) (memtable e) key of
                   Some (ADoc existingDoc) \<Rightarrow>
                     doc\<lparr>CreatedAt := CreatedAt existingDoc,
                         Version := Version existingDoc + 1\<rparr>
                 | _ \<Rightarrow> doc);
          (err, w) = WriteEntry (env_io env) (wal e)
                       \<lparr>entry_Type = WALPut, entry_Key = key, entry_Value = Some (ADoc doc),
                        entry_Timestamp = env_now env, entry_TxnID = []\<rparr>
      in case err of
           Some x \<Rightarrow> (Some x, e\<lparr>wal := w\<rparr>)
         | None \<Rightarrow>
             (let mt = Memtable_Put (memtable e) key (ADoc doc);
                  idxs = updateIndexes (env_fmt env) (indexes e) collection docID doc
              in (None,
                  e\<lparr>wal := w, memtable := mt, indexes := idxs,
                    flushes_spawned :=
                      (if MemtableSize (config e) \<le> Memtable_Size mt
                       then Suc (flushes_spawned e) else flushes_spawned e)\<rparr>)))"

definition Engine_Get :: "int \<Rightarrow> Engine \<Rightarrow> string \<Rightarrow> string \<Rightarrow> error + Document" where
  "Engine_Get now e collection docID =
     (let key = collection @ '':'' @ docID
      in case Memtable_Get now (memtable e) key of
           Some (ADoc doc) \<Rightarrow> Inr doc
         | _ \<Rightarrow>
             (case BTree_Get (btree e) key of
                Inl err \<Rightarrow> Inl err
              | Inr (ADoc doc) \<Rightarrow> Inr doc
              | Inr _ \<Rightarrow> Inl Document_not_found))"

definition Engine_Delete :: "env \<Rightarrow> Engine \<Rightarrow> string \<Rightarrow> string \<Rightarrow> error option \<times> Engine" where
  "Engine_Delete env e collection docID =
     (let key = collection @ '':'' @ docID;
          (err, w) = WriteEntry (env_io env) (wal e)
                       \<lparr>entry_Type = WALDelete, entry_Key = key, entry_Value = None,
                        entry_Timestamp = env_now env, entry_TxnID = []\<rparr>
      in case err of
           Some x \<Rightarrow> (Some x, e\<lparr>wal := w\<rparr>)
         | None \<Rightarrow>
             (None,
              e\<lparr>wal := w, memtable := snd (Memtable_Delete (memtable e) key),
                indexes := removeFromIndexes (indexes e) collection docID\<rparr>))"

definition collect ::
  "(string \<times> val) list \<Rightarrow> any \<Rightarrow> error + Document list \<Rightarrow> error + Document list"
where
  \<comment> \<open>the body shared by the visitor and the loop of \<^verbatim>\<open>Query\<close>:
      \<^verbatim>\<open>if doc, ok := value.(*Document); ok { if e.matchesFilter(doc, filter) { results = append(results, doc) } }\<close>;
      a panic in the comparison ends the query\<close>
  "collect flt v results =
     (case results of
        Inl err \<Rightarrow> Inl err
      | Inr docs \<Rightarrow>
          (case v of
             ADoc doc \<Rightarrow>
               (case matchesFilter doc flt of
                  Inl err \<Rightarrow> Inl err
                | Inr True \<Rightarrow> Inr (docs @ [doc])
                | Inr False \<Rightarrow> Inr docs)
           | _ \<Rightarrow> Inr docs))"

definition Engine_Query ::
  "int \<Rightarrow> Engine \<Rightarrow> string \<Rightarrow> (string \<times> val) list \<Rightarrow> error + Document list"
where
  "Engine_Query now e collection flt =
     (let prefix = collection @ '':'';
          results = Memtable_Range now (memtable e) prefix
                      (\<lambda>key v results. (True, collect flt v results)) (Inr [])
      in case results of
           Inl err \<Rightarrow> Inl err
         | Inr _ \<Rightarrow>
             (case BTree_Range (btree e) prefix of
                Inl err \<Rightarrow> Inl err
              | Inr diskResults \<Rightarrow> fold (collect flt) diskResults results))"

definition index_document :: "(val \<Rightarrow> string) \<Rightarrow> string \<Rightarrow> any \<Rightarrow> Index \<Rightarrow> Index" where
  \<comment> \<open>the body shared by the visitor and the loop of \<^verbatim>\<open>buildIndex\<close>\<close>
  "index_document other field v index =
     (case v of
        ADoc doc \<Rightarrow>
          (case Data doc field of
             Some fieldValue \<Rightarrow> Index_Put index (Sprintf_v other fieldValue) (ID doc)
           | None \<Rightarrow> index)
      | _ \<Rightarrow> index)"

definition buildIndex ::
  "env \<Rightarrow> Engine \<Rightarrow> string \<Rightarrow> string \<Rightarrow> Index \<Rightarrow> error option \<times> Index"
where
  "buildIndex env e collection field index =
     (let prefix = collection @ '':'';
          index = Memtable_Range (env_now env) (memtable e) prefix
                    (\<lambda>key v index. (True, index_document (env_fmt env) field v index)) index
      in case BTree_Range (btree e) prefix of
           Inl err \<Rightarrow> (Some err, index)
         | Inr diskResults \<Rightarrow>
             (None, fold (index_document (env_fmt env) field) diskResults index))"

definition CreateIndex :: "env \<Rightarrow> Engine \<Rightarrow> string \<Rightarrow> string \<Rightarrow> error option \<times> Engine" where
  "CreateIndex env e collection field =
     (let indexKey = collection @ ''.'' @ field
      in if indexes e indexKey \<noteq> None then (Some Index_already_exists, e)
         else (case buildIndex env e collection field (NewIndex field) of
                 (err, index) \<Rightarrow> (err, e\<lparr>indexes := (indexes e)(indexKey \<mapsto> index)\<rparr>)))"

definition flush_visitor :: "string \<Rightarrow> any \<Rightarrow> error + BTree \<Rightarrow> bool \<times> (error + BTree)" where
  \<comment> \<open>the visitor of \<^verbatim>\<open>flushMemtable\<close>: \<^verbatim>\<open>e.btree.Put(key, value); return true\<close>.
      \<^verbatim>\<open>BTree.Put\<close> returns no error of its own, so \<open>Inl\<close> is a panic of the goroutine\<close>
  "flush_visitor key v r =
     (case r of
        Inl err \<Rightarrow> (False, Inl err)
      | Inr bt \<Rightarrow>
          (case BTree_Put bt key v of
             Inl err \<Rightarrow> (False, Inl err)
           | Inr bt' \<Rightarrow> (True, Inr bt')))"

definition flushMemtable :: "int \<Rightarrow> bool list \<Rightarrow> Engine \<Rightarrow> error + Engine" where
  \<comment> \<open>\<open>coins\<close> seeds the generator of the new memtable\<close>
  "flushMemtable now coins e =
     (if Memtable_IsEmpty (memtable e) then Inr e
      else (let oldMemtable = memtable e;
                written = Memtable_Range now oldMemtable [] flush_visitor (Inr (btree e))
            in case written of
                 Inl err \<Rightarrow> Inl err
               | Inr bt \<Rightarrow>
                   Inr (e\<lparr>memtable := NewMemtable (MemtableSize (config e)) coins,
                          btree := bt\<rparr>)))"

definition run_flush :: "int \<Rightarrow> bool list \<Rightarrow> Engine \<Rightarrow> error + Engine" where
  \<comment> \<open>one of the spawned goroutines gets the lock and runs\<close>
  "run_flush now coins e =
     (if flushes_spawned e = 0 then Inr e
      else flushMemtable now coins (e\<lparr>flushes_spawned := flushes_spawned e - 1\<rparr>))"

definition replay :: "Memtable \<Rightarrow> WALEntry \<Rightarrow> Memtable" where
  \<comment> \<open>the body of the loop of \<^verbatim>\<open>recover\<close>\<close>
  "replay mt entry =
     (case entry_Type entry of
        WALPut \<Rightarrow>
          (case entry_Value entry of
             Some (ADoc doc) \<Rightarrow> Memtable_Put mt (entry_Key entry) (ADoc doc)
           | _ \<Rightarrow> mt)
      | WALDelete \<Rightarrow> snd (Memtable_Delete mt (entry_Key entry))
      | WALTransaction \<Rightarrow> mt)"

definition recover :: "Engine \<Rightarrow> Engine" where
  "recover e = e\<lparr>memtable := foldl replay (memtable e) (ReadEntries (wal e))\<rparr>"

definition NewEngine ::
  "StorageConfig \<Rightarrow> gob_message list \<Rightarrow> BTreeNode option \<Rightarrow> bool list \<Rightarrow> Engine"
where
  \<comment> \<open>the directory holds the log \<open>log\<close> and the B-tree image \<open>stored\<close>\<close>
  "NewEngine cfg log stored coins =
     recover \<lparr>config = cfg, memtable = NewMemtable (MemtableSize cfg) coins, wal = NewWAL log,
              btree = NewBTree stored, indexes = Map.empty, compacting = False,
              flushes_spawned = 0\<rparr>"


section \<open>Searching sorted sequences\<close>

text \<open>
  Both ordered structures keep their keys strictly increasing. \<open>lower_bound a x\<close> is the
  number of elements of \<open>a\<close> in front of the first one that is not below \<open>x\<close>: the place
  where the skip list's descent and the binary search of the B-tree arrive.
\<close>

definition lower_bound :: "'a::linorder list \<Rightarrow> 'a \<Rightarrow> nat" where
  "lower_bound a x = length (takeWhile (\<lambda>y. y < x) a)"

lemma lower_bound_le: "lower_bound a x \<le> length a"
  by (simp add: lower_bound_def length_takeWhile_le)

lemma lower_bound_less:
  "sorted_wrt (<) a \<Longrightarrow> j < length a \<Longrightarrow> (j < lower_bound a x) = (a ! j < x)"
  unfolding lower_bound_def
proof (induction a arbitrary: j)
  case Nil
  then show ?case by simp
next
  case (Cons y ys)
  show ?case
  proof (cases j)
    case 0
    then show ?thesis by simp
  next
    case (Suc j')
    with Cons.prems have j': "j' < length ys" by simp
    from Cons.prems have s: "sorted_wrt (<) ys" and lt: "\<forall>z\<in>set ys. y < z" by auto
    show ?thesis
    proof (cases "y < x")
      case True
      with Suc Cons.IH[OF s j'] show ?thesis by simp
    next
      case False
      from lt j' have "y < ys ! j'" by simp
      with False have "\<not> ys ! j' < x" by auto
      with False Suc show ?thesis by simp
    qed
  qed
qed

lemma take_lower_bound: "y \<in> set (take (lower_bound a x) a) \<Longrightarrow> y < x"
proof -
  have "take (lower_bound a x) a = takeWhile (\<lambda>y. y < x) a"
    by (simp add: lower_bound_def takeWhile_eq_take[symmetric])
  then show "y \<in> set (take (lower_bound a x) a) \<Longrightarrow> y < x"
    by (auto dest: set_takeWhileD)
qed

lemma drop_lower_bound:
  assumes s: "sorted_wrt (<) a" and y: "y \<in> set (drop (lower_bound a x) a)"
  shows "x \<le> y"
proof -
  from y obtain j where j: "j < length (drop (lower_bound a x) a)"
    "y = drop (lower_bound a x) a ! j"
    by (auto simp: in_set_conv_nth)
  then have "y = a ! (lower_bound a x + j)" "lower_bound a x + j < length a" by auto
  with s lower_bound_less[of a "lower_bound a x + j" x] show ?thesis by auto
qed

lemma drop_Suc_lower_bound:
  assumes s: "sorted_wrt (<) a" and y: "y \<in> set (drop (Suc (lower_bound a x)) a)"
  shows "x < y"
proof -
  let ?p = "lower_bound a x"
  from y obtain j where j: "j < length (drop (Suc ?p) a)" "y = drop (Suc ?p) a ! j"
    by (auto simp: in_set_conv_nth)
  then have yj: "y = a ! (Suc ?p + j)" and lt: "Suc ?p + j < length a" by auto
  from lt have p: "?p < length a" by simp
  from s p have "x \<le> a ! ?p" using lower_bound_less[of a ?p x] by auto
  moreover from s lt have "a ! ?p < a ! (Suc ?p + j)"
    by (simp add: sorted_wrt_iff_nth_less)
  ultimately show ?thesis using yj by simp
qed

lemma lower_bound_absent:
  assumes s: "sorted_wrt (<) a"
    and nf: "\<not> (lower_bound a x < length a \<and> a ! lower_bound a x = x)"
    and y: "y \<in> set (drop (lower_bound a x) a)"
  shows "x < y"
proof -
  let ?p = "lower_bound a x"
  from y have p: "?p < length a" by (cases "?p < length a") auto
  with y have "y = a ! ?p \<or> y \<in> set (drop (Suc ?p) a)"
    by (metis Cons_nth_drop_Suc set_ConsD)
  then show ?thesis
  proof
    assume e: "y = a ! ?p"
    from drop_lower_bound[OF s y] have "x \<le> y" .
    moreover from e nf p have "y \<noteq> x" by auto
    ultimately show ?thesis by simp
  next
    assume "y \<in> set (drop (Suc ?p) a)"
    with s show ?thesis by (rule drop_Suc_lower_bound)
  qed
qed

lemma not_found_not_member:
  assumes s: "sorted_wrt (<) a"
    and nf: "\<not> (lower_bound a x < length a \<and> a ! lower_bound a x = x)"
  shows "x \<notin> set a"
proof
  assume "x \<in> set a"
  then have "x \<in> set (take (lower_bound a x) a @ drop (lower_bound a x) a)" by simp
  then have "x \<in> set (take (lower_bound a x) a) \<or> x \<in> set (drop (lower_bound a x) a)"
    by (simp only: set_append Un_iff)
  with take_lower_bound[of x a x] lower_bound_absent[OF s nf, of x] show False by auto
qed

lemma sorted_insert_lower_bound:
  assumes s: "sorted_wrt (<) a"
    and nf: "\<not> (lower_bound a x < length a \<and> a ! lower_bound a x = x)"
  shows "sorted_wrt (<) (take (lower_bound a x) a @ x # drop (lower_bound a x) a)"
proof -
  let ?p = "lower_bound a x"
  from s have "sorted_wrt (<) (take ?p a)" "sorted_wrt (<) (drop ?p a)"
    by (simp_all add: sorted_wrt_take sorted_wrt_drop)
  moreover have "\<forall>y\<in>set (drop ?p a). x < y"
    using lower_bound_absent[OF s nf] by blast
  moreover have "\<forall>y\<in>set (take ?p a). y < x"
    using take_lower_bound by blast
  ultimately show ?thesis
    by (fastforce simp: sorted_wrt_append)
qed

lemma sorted_remove_nth:
  assumes s: "sorted_wrt (<) (a :: 'a::linorder list)"
  shows "sorted_wrt (<) (take p a @ drop (Suc p) a)"
proof -
  have "a = take p a @ drop p a" by simp
  with s have "sorted_wrt (<) (take p a @ drop p a)" by simp
  then have c: "\<forall>x\<in>set (take p a). \<forall>y\<in>set (drop p a). x < y"
    and t: "sorted_wrt (<) (take p a)"
    unfolding sorted_wrt_append by auto
  from s have d: "sorted_wrt (<) (drop (Suc p) a)" by (rule sorted_wrt_drop)
  have "set (drop (Suc p) a) \<subseteq> set (drop p a)" by (simp add: set_drop_subset_set_drop)
  with c t d show ?thesis by (auto simp: sorted_wrt_append)
qed

lemma search_loop_bounds:
  assumes mono: "\<And>a b. a \<le> b \<Longrightarrow> b < n \<Longrightarrow> f a \<Longrightarrow> f b"
  shows "i \<le> j \<Longrightarrow> j \<le> n \<Longrightarrow> (\<forall>h<i. \<not> f h) \<Longrightarrow> (\<forall>h. j \<le> h \<and> h < n \<longrightarrow> f h) \<Longrightarrow>
         i \<le> search_loop f i j \<and> search_loop f i j \<le> j \<and>
         (\<forall>h. h < search_loop f i j \<longrightarrow> \<not> f h) \<and>
         (\<forall>h. search_loop f i j \<le> h \<and> h < n \<longrightarrow> f h)"
proof (induction "j - i" arbitrary: i j rule: less_induct)
  case less
  show ?case
  proof (cases "i < j")
    case False
    then have "search_loop f i j = i" by (simp add: search_loop.simps[of f i j])
    with False less.prems show ?thesis by auto
  next
    case True
    define h where "h = (i + j) div 2"
    from True have h: "i \<le> h" "h < j" by (simp_all add: h_def)
    show ?thesis
    proof (cases "f h")
      case False
      with True have eq: "search_loop f i j = search_loop f (h + 1) j"
        by (simp add: search_loop.simps[of f i j] h_def Let_def)
      have lo: "\<forall>h'<h + 1. \<not> f h'"
      proof (intro allI impI)
        fix h' assume "h' < h + 1"
        then have "h' \<le> h" by simp
        moreover from h less.prems(2) have "h < n" by simp
        ultimately show "\<not> f h'" using False mono[of h' h] by blast
      qed
      from h have m: "j - (h + 1) < j - i" and le: "h + 1 \<le> j" by simp_all
      from less.hyps[OF m le less.prems(2) lo less.prems(4)] h
      show ?thesis unfolding eq by simp
    next
      case fh: True
      with True have eq: "search_loop f i j = search_loop f i h"
        by (simp add: search_loop.simps[of f i j] h_def Let_def)
      have hi: "\<forall>h'. h \<le> h' \<and> h' < n \<longrightarrow> f h'"
        using fh mono by blast
      from h less.prems(2) have m: "h - i < j - i" and le: "h \<le> n" by simp_all
      from less.hyps[OF m h(1) le less.prems(3) hi] h
      show ?thesis unfolding eq by simp
    qed
  qed
qed

lemma SearchStrings_sorted:
  assumes "sorted_wrt (<) a"
  shows "SearchStrings a x = lower_bound a x"
proof -
  define f where "f = (\<lambda>i. x \<le> a ! i)"
  define r where "r = search_loop f 0 (length a)"
  have mono: "f i \<Longrightarrow> f j" if "i \<le> j" "j < length a" for i j
  proof -
    assume fi: "f i"
    have "a ! i \<le> a ! j"
    proof (cases "i = j")
      case True
      then show ?thesis by simp
    next
      case False
      with that have "i < j" by simp
      with assms that(2) have "a ! i < a ! j" by (simp add: sorted_wrt_iff_nth_less)
      then show ?thesis by (rule less_imp_le)
    qed
    with fi show "f j" unfolding f_def by (rule order_trans)
  qed
  have "0 \<le> r \<and> r \<le> length a \<and> (\<forall>h. h < r \<longrightarrow> \<not> f h) \<and>
        (\<forall>h. r \<le> h \<and> h < length a \<longrightarrow> f h)"
    unfolding r_def
  proof (rule search_loop_bounds[of "length a" f 0 "length a"])
    show "f i \<Longrightarrow> f j" if "i \<le> j" "j < length a" for i j
      using that by (rule mono)
    show "\<forall>h. length a \<le> h \<and> h < length a \<longrightarrow> f h"
      by (intro allI impI) linarith
  qed simp_all
  then have r: "r \<le> length a" "\<And>h. h < r \<Longrightarrow> \<not> f h"
    "\<And>h. r \<le> h \<Longrightarrow> h < length a \<Longrightarrow> f h"
    by blast+
  have "takeWhile (\<lambda>y. y < x) a = take r a"
  proof (rule takeWhile_eq_take_P_nth)
    fix i assume "i < r" "i < length a"
    with r(2) have "\<not> x \<le> a ! i" unfolding f_def by blast
    then show "a ! i < x" by (rule not_le_imp_less)
  next
    assume "r < length a"
    with r(3)[of r] have "x \<le> a ! r" unfolding f_def by blast
    then show "\<not> a ! r < x" by (rule leD)
  qed
  then have "lower_bound a x = length (take r a)" by (simp only: lower_bound_def)
  with r(1) have "lower_bound a x = r" by simp
  then show ?thesis by (simp only: SearchStrings_def r_def f_def)
qed

section \<open>The memtable is a sorted sequence\<close>

text \<open>
  \<open>wf_nodes\<close> is the invariant of the level-0 chain: the keys increase strictly and every
  node has at least one level. On such a chain the descent through the levels ends in front
  of the first node whose key is not below the key searched for.
\<close>

definition wf_nodes :: "SkipListNode list \<Rightarrow> bool" where
  "wf_nodes ns = (sorted_wrt (<) (map n_key ns) \<and> list_all (\<lambda>n. 0 < n_levels n) ns)"

definition below :: "SkipListNode list \<Rightarrow> string \<Rightarrow> nat" where
  "below ns k = lower_bound (map n_key ns) k"

definition new_node :: "Memtable \<Rightarrow> string \<Rightarrow> any \<Rightarrow> SkipListNode" where
  "new_node mt k v =
     \<lparr>n_key = k, n_value = v, n_levels = fst (randomLevel 0 (mt_rand mt)) + 1, n_ttl = None\<rparr>"

lemma forward_in_range: "forward ns p i = Some q \<Longrightarrow> q - 1 < length ns \<and> 0 < q"
  by (auto dest: forward_Some)

lemma forward_0:
  assumes "list_all (\<lambda>n. 0 < n_levels n) ns"
  shows "forward ns p 0 = (if p < length ns then Some (Suc p) else None)"
proof -
  have "takeWhile (\<lambda>n. n_levels n \<le> 0) (drop p ns) = []"
  proof (cases "drop p ns")
    case Nil
    then show ?thesis by simp
  next
    case (Cons x xs)
    then have "x \<in> set ns" by (metis in_set_dropD list.set_intros(1))
    with assms have "0 < n_levels x" by (simp add: list_all_iff)
    with Cons show ?thesis by simp
  qed
  then show ?thesis by (simp add: forward_def)
qed

lemma wf_forward_0:
  "wf_nodes ns \<Longrightarrow> forward ns p 0 = (if p < length ns then Some (Suc p) else None)"
  by (simp add: wf_nodes_def forward_0)

lemma below_le: "below ns k \<le> length ns"
  using lower_bound_le[of "map n_key ns" k] by (simp add: below_def)

lemma below_less:
  "sorted_wrt (<) (map n_key ns) \<Longrightarrow> j < length ns \<Longrightarrow> (j < below ns k) = (n_key (ns ! j) < k)"
  using lower_bound_less[of "map n_key ns" j k] by (simp add: below_def)

lemma walk_below:
  assumes s: "sorted_wrt (<) (map n_key ns)"
  shows "cur \<le> below ns k \<Longrightarrow> walk ns k i cur \<le> below ns k"
proof (induction "length ns - cur" arbitrary: cur rule: less_induct)
  case less
  show ?case
  proof (cases "forward ns cur i")
    case None
    with less.prems show ?thesis by (simp add: walk.simps)
  next
    case (Some q)
    from forward_Some[OF Some] have q: "cur < q" "q \<le> length ns" by auto
    show ?thesis
    proof (cases "n_key (ns ! (q - 1)) < k")
      case True
      from q have "q - 1 < length ns" by simp
      with True s have "q - 1 < below ns k" by (simp add: below_less)
      then have "q \<le> below ns k" by simp
      moreover from q have "length ns - q < length ns - cur" by simp
      ultimately have "walk ns k i q \<le> below ns k" by (rule less.hyps[rotated])
      with Some True show ?thesis by (simp add: walk.simps[of ns k i cur])
    next
      case False
      with Some less.prems show ?thesis by (simp add: walk.simps[of ns k i cur])
    qed
  qed
qed

lemma walk_0_below:
  assumes s: "sorted_wrt (<) (map n_key ns)" and l: "list_all (\<lambda>n. 0 < n_levels n) ns"
  shows "cur \<le> below ns k \<Longrightarrow> walk ns k 0 cur = below ns k"
proof (induction "length ns - cur" arbitrary: cur rule: less_induct)
  case less
  show ?case
  proof (cases "cur < length ns")
    case False
    with less.prems below_le[of ns k] have "cur = below ns k" by simp
    moreover from False l have "forward ns cur 0 = None" by (simp add: forward_0)
    then have "walk ns k 0 cur = cur" by (simp add: walk.simps[of ns k 0 cur])
    ultimately show ?thesis by simp
  next
    case True
    with l have f: "forward ns cur 0 = Some (Suc cur)" by (simp add: forward_0)
    show ?thesis
    proof (cases "n_key (ns ! cur) < k")
      case True
      with s \<open>cur < length ns\<close> have "Suc cur \<le> below ns k"
        by (simp add: below_less Suc_le_eq)
      moreover from \<open>cur < length ns\<close> have "length ns - Suc cur < length ns - cur" by simp
      ultimately have "walk ns k 0 (Suc cur) = below ns k" by (rule less.hyps[rotated])
      with f True show ?thesis by (simp add: walk.simps[of ns k 0 cur])
    next
      case False
      with s \<open>cur < length ns\<close> have "\<not> cur < below ns k" by (simp add: below_less)
      with less.prems have "cur = below ns k" by simp
      moreover from f False have "walk ns k 0 cur = cur"
        by (simp add: walk.simps[of ns k 0 cur])
      ultimately show ?thesis by simp
    qed
  qed
qed

lemma descend_below:
  assumes "wf_nodes ns"
  shows "cur \<le> below ns k \<Longrightarrow> descend ns k l cur = below ns k"
proof (induction l arbitrary: cur)
  case 0
  with assms show ?case by (simp add: wf_nodes_def walk_0_below)
next
  case (Suc l)
  from assms Suc.prems have "walk ns k (Suc l) cur \<le> below ns k"
    by (simp add: wf_nodes_def walk_below)
  then show ?case by (simp add: Suc.IH)
qed

lemma find_below: "wf_nodes ns \<Longrightarrow> descend ns k l 0 = below ns k"
  by (simp add: descend_below)

lemma wf_nodes_insert:
  assumes wf: "wf_nodes ns"
    and nf: "\<not> (below ns k < length ns \<and> n_key (ns ! below ns k) = k)"
    and new: "n_key new = k" "0 < n_levels new"
  shows "wf_nodes (take (below ns k) ns @ new # drop (below ns k) ns)"
proof -
  let ?ks = "map n_key ns"
  from wf have s: "sorted_wrt (<) ?ks" by (simp add: wf_nodes_def)
  from nf have "\<not> (lower_bound ?ks k < length ?ks \<and> ?ks ! lower_bound ?ks k = k)"
    by (auto simp: below_def)
  with s have "sorted_wrt (<) (take (lower_bound ?ks k) ?ks @ k # drop (lower_bound ?ks k) ?ks)"
    by (rule sorted_insert_lower_bound)
  with new have "sorted_wrt (<) (map n_key (take (below ns k) ns @ new # drop (below ns k) ns))"
    by (simp add: below_def take_map drop_map)
  moreover from wf new
  have "list_all (\<lambda>n. 0 < n_levels n) (take (below ns k) ns @ new # drop (below ns k) ns)"
    by (auto simp: wf_nodes_def list_all_iff dest: in_set_takeD in_set_dropD)
  ultimately show ?thesis by (simp add: wf_nodes_def)
qed

lemma wf_nodes_update:
  assumes wf: "wf_nodes ns" and p: "p < length ns"
  shows "wf_nodes (ns[p := (ns ! p)\<lparr>n_value := v\<rparr>])"
proof -
  have "map n_key (ns[p := (ns ! p)\<lparr>n_value := v\<rparr>]) = map n_key ns"
    by (simp add: map_update list_update_same_conv p)
  moreover have "0 < n_levels x" if "x \<in> set (ns[p := (ns ! p)\<lparr>n_value := v\<rparr>])" for x
  proof -
    from that have "x = (ns ! p)\<lparr>n_value := v\<rparr> \<or> x \<in> set ns"
      using set_update_subset_insert[of ns p] by auto
    moreover from wf p have "0 < n_levels (ns ! p)" by (simp add: wf_nodes_def list_all_length)
    moreover from wf have "y \<in> set ns \<Longrightarrow> 0 < n_levels y" for y
      by (simp add: wf_nodes_def list_all_iff)
    ultimately show ?thesis by auto
  qed
  ultimately show ?thesis using wf by (simp add: wf_nodes_def list_all_iff)
qed

lemma wf_nodes_remove:
  assumes wf: "wf_nodes ns"
  shows "wf_nodes (take p ns @ drop (Suc p) ns)"
proof -
  from wf have "sorted_wrt (<) (map n_key ns)" by (simp add: wf_nodes_def)
  then have "sorted_wrt (<) (take p (map n_key ns) @ drop (Suc p) (map n_key ns))"
    by (rule sorted_remove_nth)
  then have "sorted_wrt (<) (map n_key (take p ns @ drop (Suc p) ns))"
    by (simp add: take_map drop_map)
  moreover from wf have "list_all (\<lambda>n. 0 < n_levels n) (take p ns @ drop (Suc p) ns)"
    by (auto simp: wf_nodes_def list_all_iff dest: in_set_takeD in_set_dropD)
  ultimately show ?thesis by (simp add: wf_nodes_def)
qed

text \<open>The three operations on a well-formed chain, without the search loops.\<close>

lemma Memtable_Put_wf_eq:
  assumes "wf_nodes (mt_nodes mt)"
  shows "Memtable_Put mt k v =
     (if below (mt_nodes mt) k < length (mt_nodes mt) \<and>
         n_key (mt_nodes mt ! below (mt_nodes mt) k) = k
      then mt\<lparr>mt_nodes := (mt_nodes mt)[below (mt_nodes mt) k :=
             (mt_nodes mt ! below (mt_nodes mt) k)\<lparr>n_value := v\<rparr>]\<rparr>
      else mt\<lparr>mt_nodes := take (below (mt_nodes mt) k) (mt_nodes mt) @
                 new_node mt k v # drop (below (mt_nodes mt) k) (mt_nodes mt),
              mt_level := max (mt_level mt) (fst (randomLevel 0 (mt_rand mt))),
              mt_count := mt_count mt + 1,
              mt_size := mt_size mt + int (length k) + estimateValueSize v,
              mt_rand := snd (randomLevel 0 (mt_rand mt))\<rparr>)"
  using assms
  by (simp add: Memtable_Put_def Let_def find_below wf_forward_0 new_node_def split: prod.splits)

lemma Memtable_Get_wf_eq:
  assumes "wf_nodes (mt_nodes mt)"
  shows "Memtable_Get now mt k =
     (if below (mt_nodes mt) k < length (mt_nodes mt) \<and>
         n_key (mt_nodes mt ! below (mt_nodes mt) k) = k
      then (case n_ttl (mt_nodes mt ! below (mt_nodes mt) k) of
              Some t \<Rightarrow> if t < now then None
                        else Some (n_value (mt_nodes mt ! below (mt_nodes mt) k))
            | None \<Rightarrow> Some (n_value (mt_nodes mt ! below (mt_nodes mt) k)))
      else None)"
  using assms
  by (simp add: Memtable_Get_def Let_def find_below wf_forward_0 split: option.splits)

lemma Memtable_Delete_wf_eq:
  assumes "wf_nodes (mt_nodes mt)"
  shows "Memtable_Delete mt k =
     (if below (mt_nodes mt) k < length (mt_nodes mt) \<and>
         n_key (mt_nodes mt ! below (mt_nodes mt) k) = k
      then (True,
            mt\<lparr>mt_nodes := take (below (mt_nodes mt) k) (mt_nodes mt) @
                  drop (Suc (below (mt_nodes mt) k)) (mt_nodes mt),
               mt_level := lower_level (take (below (mt_nodes mt) k) (mt_nodes mt) @
                  drop (Suc (below (mt_nodes mt) k)) (mt_nodes mt)) (mt_level mt),
               mt_count := mt_count mt - 1,
               mt_size := mt_size mt - (int (length k) +
                  estimateValueSize (n_value (mt_nodes mt ! below (mt_nodes mt) k)))\<rparr>)
      else (False, mt))"
  using assms by (simp add: Memtable_Delete_def Let_def find_below wf_forward_0)

lemma Memtable_Put_wf:
  assumes "wf_nodes (mt_nodes mt)"
  shows "wf_nodes (mt_nodes (Memtable_Put mt k v))"
proof (cases "below (mt_nodes mt) k < length (mt_nodes mt) \<and>
         n_key (mt_nodes mt ! below (mt_nodes mt) k) = k")
  case True
  with assms show ?thesis by (simp add: Memtable_Put_wf_eq wf_nodes_update)
next
  case False
  have "wf_nodes (take (below (mt_nodes mt) k) (mt_nodes mt) @
           new_node mt k v # drop (below (mt_nodes mt) k) (mt_nodes mt))"
    using assms False by (rule wf_nodes_insert) (simp_all add: new_node_def)
  with assms False show ?thesis by (auto simp: Memtable_Put_wf_eq)
qed

lemma Memtable_Delete_wf:
  assumes "wf_nodes (mt_nodes mt)"
  shows "wf_nodes (mt_nodes (snd (Memtable_Delete mt k)))"
  using assms by (simp add: Memtable_Delete_wf_eq wf_nodes_remove)

lemma NewMemtable_wf: "wf_nodes (mt_nodes (NewMemtable m c))"
  by (simp add: NewMemtable_def wf_nodes_def)

lemma wf_nodes_distinct: "wf_nodes ns \<Longrightarrow> distinct (map n_key ns)"
  by (simp add: wf_nodes_def strict_sorted_iff)

section \<open>The B-tree built by the engine is one sorted leaf\<close>

text \<open>
  \<^verbatim>\<open>BTree.Put\<close> hands the root to \<^verbatim>\<open>insert\<close>, which splits a child after the recursive
  call but never the node it was called on. The root created by \<^verbatim>\<open>loadRoot\<close> is a leaf, so
  every insertion goes to \<^verbatim>\<open>insertIntoLeaf\<close> on the root and the tree stays a single leaf
  with strictly increasing keys.
\<close>


definition leaf_ok :: "BTreeNode \<Rightarrow> bool" where
  "leaf_ok node =
     (IsLeaf node \<and> sorted_wrt (<) (Keys node) \<and> length (Values node) = length (Keys node) \<and>
      Children node = [])"

definition node_entries :: "BTreeNode \<Rightarrow> (string \<times> any) list" where
  "node_entries node = zip (Keys node) (Values node)"

lemma insert_node_leaf: "IsLeaf node \<Longrightarrow> insert_node node k v = insertIntoLeaf node k v"
  by (simp add: insert_node.simps[of node k v])

lemma map_of_zip_update:
  assumes d: "distinct ks" and l: "length vs = length ks" and p: "p < length ks"
  shows "map_of (zip ks (vs[p := v])) = (map_of (zip ks vs))(ks ! p \<mapsto> v)"
proof
  fix k
  show "map_of (zip ks (vs[p := v])) k = ((map_of (zip ks vs))(ks ! p \<mapsto> v)) k"
  proof (cases "k \<in> set ks")
    case False
    with l p have "map_of (zip ks (vs[p := v])) k = None" "map_of (zip ks vs) k = None"
      by (simp_all add: map_of_zip_is_None)
    moreover from False p have "k \<noteq> ks ! p" by auto
    ultimately show ?thesis by simp
  next
    case True
    then obtain j where j: "j < length ks" "k = ks ! j" by (auto simp: in_set_conv_nth)
    from d l j have a: "map_of (zip ks (vs[p := v])) k = Some (vs[p := v] ! j)"
      by (simp add: map_of_zip_nth)
    from d l j have b: "map_of (zip ks vs) k = Some (vs ! j)"
      by (simp add: map_of_zip_nth)
    show ?thesis
    proof (cases "j = p")
      case True
      with a j l show ?thesis by simp
    next
      case False
      with d j p have "ks ! j \<noteq> ks ! p" by (simp add: nth_eq_iff_index_eq)
      with a b False j show ?thesis by simp
    qed
  qed
qed

lemma map_of_zip_insert:
  assumes l: "length vs = length ks" and n: "k \<notin> set ks"
  shows "map_of (zip (take p ks @ k # drop p ks) (take p vs @ v # drop p vs)) =
         (map_of (zip ks vs))(k \<mapsto> v)"
proof -
  let ?A = "zip (take p ks) (take p vs)" and ?B = "zip (drop p ks) (drop p vs)"
  from l have "zip (take p ks @ k # drop p ks) (take p vs @ v # drop p vs) = ?A @ (k, v) # ?B"
    by simp
  moreover have "zip ks vs = ?A @ ?B"
    by (metis append_take_drop_id l length_take zip_append)
  moreover from n have "k \<notin> fst ` set ?A" by (auto dest!: set_zip_leftD in_set_takeD)
  then have "map_of ?A k = None" by (simp add: map_of_eq_None_iff)
  then have "map_of (?A @ (k, v) # ?B) = (map_of (?A @ ?B))(k \<mapsto> v)"
    by (auto simp: map_add_def fun_eq_iff split: option.splits)
  ultimately show ?thesis by simp
qed

lemma insertIntoLeaf_ok:
  assumes "leaf_ok node"
  shows "\<exists>node'. insertIntoLeaf node k v = Inr node' \<and> leaf_ok node' \<and>
           map_of (node_entries node') = (map_of (node_entries node))(k \<mapsto> v) \<and>
           set (Keys node') = insert k (set (Keys node))"
proof -
  let ?ks = "Keys node" and ?vs = "Values node"
  let ?p = "lower_bound ?ks k"
  from assms have s: "sorted_wrt (<) ?ks" and l: "length ?vs = length ?ks"
    and lf: "IsLeaf node" "Children node = []"
    by (simp_all add: leaf_ok_def)
  from s have d: "distinct ?ks" by (simp add: strict_sorted_iff)
  have pos: "SearchStrings ?ks k = ?p" using s by (rule SearchStrings_sorted)
  show ?thesis
  proof (cases "?p < length ?ks \<and> ?ks ! ?p = k")
    case True
    then have e: "insertIntoLeaf node k v = Inr (BTreeNode (IsLeaf node) ?ks (?vs[?p := v]) (Children node))"
      using l by (simp add: insertIntoLeaf_def pos Let_def)
    from True d l have "map_of (zip ?ks (?vs[?p := v])) = (map_of (zip ?ks ?vs))(k \<mapsto> v)"
      using map_of_zip_update[of ?ks ?vs ?p v] by simp
    moreover from True have "k \<in> set ?ks" by (metis nth_mem)
    ultimately show ?thesis using e s l lf
      by (auto simp: leaf_ok_def node_entries_def)
  next
    case False
    from lower_bound_le[of ?ks k] l have "?p \<le> length ?vs" by simp
    with False have e: "insertIntoLeaf node k v =
        Inr (BTreeNode (IsLeaf node) (take ?p ?ks @ k # drop ?p ?ks)
               (take ?p ?vs @ v # drop ?p ?vs) (Children node))"
      by (auto simp: insertIntoLeaf_def pos Let_def)
    from s False have n: "k \<notin> set ?ks" by (rule not_found_not_member)
    from s False have s': "sorted_wrt (<) (take ?p ?ks @ k # drop ?p ?ks)"
      by (rule sorted_insert_lower_bound)
    have "set (take ?p ?ks @ k # drop ?p ?ks) = insert k (set (take ?p ?ks @ drop ?p ?ks))"
      by (simp only: set_append list.set) blast
    then have st: "set (take ?p ?ks @ k # drop ?p ?ks) = insert k (set ?ks)" by simp
    from l n have m: "map_of (zip (take ?p ?ks @ k # drop ?p ?ks) (take ?p ?vs @ v # drop ?p ?vs)) =
         (map_of (zip ?ks ?vs))(k \<mapsto> v)" by (rule map_of_zip_insert)
    from e s' st m l lf show ?thesis
      by (simp add: leaf_ok_def node_entries_def)
  qed
qed

lemma search_node_leaf:
  assumes "leaf_ok node"
  shows "search_node node k =
     (case map_of (node_entries node) k of Some v \<Rightarrow> Inr v | None \<Rightarrow> Inl Key_not_found)"
proof -
  let ?ks = "Keys node" and ?vs = "Values node"
  let ?p = "lower_bound ?ks k"
  from assms have s: "sorted_wrt (<) ?ks" and l: "length ?vs = length ?ks" and lf: "IsLeaf node"
    by (simp_all add: leaf_ok_def)
  from s have d: "distinct ?ks" by (simp add: strict_sorted_iff)
  have pos: "SearchStrings ?ks k = ?p" using s by (rule SearchStrings_sorted)
  show ?thesis
  proof (cases "?p < length ?ks \<and> ?ks ! ?p = k")
    case True
    with d l have "map_of (zip ?ks ?vs) k = Some (?vs ! ?p)"
      using map_of_zip_nth[of ?ks ?vs ?p] by simp
    with True l show ?thesis
      by (simp add: search_node.simps[of node k] pos node_entries_def)
  next
    case False
    with s have "k \<notin> set ?ks" by (rule not_found_not_member)
    with l have "map_of (zip ?ks ?vs) k = None" by (simp add: map_of_zip_is_None)
    with False lf show ?thesis
      by (auto simp: search_node.simps[of node k] pos node_entries_def)
  qed
qed

lemma leaf_scan_eq:
  "length vs = length ks \<Longrightarrow>
   leaf_scan ks vs p results =
     Inr (results @ map snd (filter (\<lambda>(k, v). HasPrefix k p) (zip ks vs)))"
proof (induction ks arbitrary: vs results)
  case Nil
  then show ?case by simp
next
  case (Cons k ks)
  then obtain v vs' where vs: "vs = v # vs'" by (cases vs) auto
  with Cons.prems have "length vs' = length ks" by simp
  from Cons.IH[OF this] vs show ?case by simp
qed

lemma rangeSearch_leaf:
  assumes "leaf_ok node"
  shows "rangeSearch node p results =
     Inr (results @ map snd (filter (\<lambda>(k, v). HasPrefix k p) (node_entries node)))"
  using assms
  by (simp add: rangeSearch.simps[of node p results] leaf_ok_def leaf_scan_eq node_entries_def)


definition bt_ok :: "BTree \<Rightarrow> bool" where
  "bt_ok bt = (case bt_root bt of None \<Rightarrow> True | Some r \<Rightarrow> leaf_ok r)"

definition bt_entries :: "BTree \<Rightarrow> (string \<times> any) list" where
  "bt_entries bt = (case bt_root bt of None \<Rightarrow> [] | Some r \<Rightarrow> node_entries r)"

fun BTree_Puts :: "BTree \<Rightarrow> (string \<times> any) list \<Rightarrow> error + BTree" where
  "BTree_Puts bt [] = Inr bt"
| "BTree_Puts bt ((k, v) # kvs) =
     (case BTree_Put bt k v of Inl err \<Rightarrow> Inl err | Inr bt' \<Rightarrow> BTree_Puts bt' kvs)"

lemma node_entries_keys: "leaf_ok node \<Longrightarrow> map fst (node_entries node) = Keys node"
  by (simp add: leaf_ok_def node_entries_def)

lemma BTree_Put_ok:
  assumes "bt_ok bt"
  shows "\<exists>r. BTree_Put bt k v = Inr (bt\<lparr>bt_root := Some r\<rparr>) \<and> leaf_ok r \<and>
           map_of (node_entries r) = (map_of (bt_entries bt))(k \<mapsto> v) \<and>
           set (Keys r) = insert k (fst ` set (bt_entries bt))"
proof (cases "bt_root bt")
  case None
  have "leaf_ok (BTreeNode True [k] [v] [])" by (simp add: leaf_ok_def)
  with None show ?thesis
    by (auto simp: BTree_Put_def bt_entries_def node_entries_def)
next
  case (Some r)
  with assms have ok: "leaf_ok r" by (simp add: bt_ok_def)
  from insertIntoLeaf_ok[OF ok, of k v] obtain r' where
    r': "insertIntoLeaf r k v = Inr r'" "leaf_ok r'"
      "map_of (node_entries r') = (map_of (node_entries r))(k \<mapsto> v)"
      "set (Keys r') = insert k (set (Keys r))"
    by blast
  from ok have "insert_node r k v = insertIntoLeaf r k v"
    by (simp add: insert_node_leaf leaf_ok_def)
  moreover from ok have "fst ` set (node_entries r) = set (Keys r)"
    using node_entries_keys[of r] by (metis list.set_map)
  ultimately show ?thesis using Some r'
    by (auto simp: BTree_Put_def bt_entries_def)
qed

lemma BTree_Get_ok:
  assumes "bt_ok bt"
  shows "BTree_Get bt k =
     (case map_of (bt_entries bt) k of Some v \<Rightarrow> Inr v | None \<Rightarrow> Inl Key_not_found)"
  using assms
  by (cases "bt_root bt") (simp_all add: BTree_Get_def bt_ok_def bt_entries_def search_node_leaf)

lemma BTree_Range_ok:
  assumes "bt_ok bt"
  shows "BTree_Range bt p = Inr (map snd (filter (\<lambda>(k, v). HasPrefix k p) (bt_entries bt)))"
  using assms
  by (cases "bt_root bt") (simp_all add: BTree_Range_def bt_ok_def bt_entries_def rangeSearch_leaf)

lemma bt_entries_distinct: "bt_ok bt \<Longrightarrow> distinct (map fst (bt_entries bt))"
  by (cases "bt_root bt")
    (simp_all add: bt_ok_def bt_entries_def node_entries_keys, simp add: leaf_ok_def strict_sorted_iff)

lemma BTree_Puts_ok:
  assumes "bt_ok bt"
  shows "\<exists>bt'. BTree_Puts bt kvs = Inr bt' \<and> bt_ok bt' \<and>
           map_of (bt_entries bt') = map_of (bt_entries bt) ++ map_of (rev kvs) \<and>
           fst ` set (bt_entries bt') = fst ` set (bt_entries bt) \<union> fst ` set kvs \<and>
           (bt_root bt \<noteq> None \<longrightarrow> bt_root bt' \<noteq> None)"
  using assms
proof (induction kvs arbitrary: bt)
  case Nil
  then show ?case by simp
next
  case (Cons kv kvs)
  obtain k v where kv: "kv = (k, v)" by (cases kv)
  from BTree_Put_ok[OF Cons.prems, of k v] obtain r where
    r: "BTree_Put bt k v = Inr (bt\<lparr>bt_root := Some r\<rparr>)" "leaf_ok r"
      "map_of (node_entries r) = (map_of (bt_entries bt))(k \<mapsto> v)"
      "set (Keys r) = insert k (fst ` set (bt_entries bt))"
    by blast
  let ?bt = "bt\<lparr>bt_root := Some r\<rparr>"
  from r(2) have ok: "bt_ok ?bt" by (simp add: bt_ok_def)
  have e: "bt_entries ?bt = node_entries r" by (simp add: bt_entries_def)
  from r(2) have ks: "fst ` set (node_entries r) = set (Keys r)"
    using node_entries_keys[of r] by (metis list.set_map)
  from Cons.IH[OF ok] obtain bt' where
    bt': "BTree_Puts ?bt kvs = Inr bt'" "bt_ok bt'"
      "map_of (bt_entries bt') = map_of (bt_entries ?bt) ++ map_of (rev kvs)"
      "fst ` set (bt_entries bt') = fst ` set (bt_entries ?bt) \<union> fst ` set kvs"
      "bt_root ?bt \<noteq> None \<longrightarrow> bt_root bt' \<noteq> None"
    by blast
  have "map_of (bt_entries bt') = map_of (bt_entries bt) ++ map_of (rev (kv # kvs))"
    unfolding bt'(3) e r(3) kv
    by (simp add: map_add_def fun_eq_iff split: option.splits)
  moreover have "fst ` set (bt_entries bt') = fst ` set (bt_entries bt) \<union> fst ` set (kv # kvs)"
    unfolding bt'(4) e ks r(4) kv by auto
  moreover from bt'(5) have "bt_root bt' \<noteq> None" by simp
  ultimately show ?case using r(1) bt'(1,2) kv by simp
qed

lemma NewBTree_ok: "bt_ok (NewBTree None)" "bt_entries (NewBTree None) = []"
  "bt_root (NewBTree None) \<noteq> None"
  by (simp_all add: NewBTree_def bt_ok_def bt_entries_def leaf_ok_def node_entries_def)
lemma BTree_Puts_single_leaf:
  "\<exists>bt r. BTree_Puts (NewBTree None) kvs = Inr bt \<and> bt_root bt = Some r \<and> IsLeaf r \<and>
     Children r = [] \<and> length (Keys r) = card (fst ` set kvs)"
proof -
  from BTree_Puts_ok[OF NewBTree_ok(1), of kvs] obtain bt where
    bt: "BTree_Puts (NewBTree None) kvs = Inr bt" "bt_ok bt"
      "fst ` set (bt_entries bt) = fst ` set kvs" "bt_root bt \<noteq> None"
    by (auto simp: NewBTree_ok)
  then obtain r where r: "bt_root bt = Some r" by auto
  with bt(2) have ok: "leaf_ok r" by (simp add: bt_ok_def)
  then have "distinct (Keys r)" by (simp add: leaf_ok_def strict_sorted_iff)
  then have "length (Keys r) = card (set (Keys r))" by (simp add: distinct_card)
  moreover from ok have "set (Keys r) = fst ` set (bt_entries bt)"
    using node_entries_keys[of r] r by (metis bt_entries_def list.set_map option.simps(5))
  ultimately have "length (Keys r) = card (fst ` set kvs)" using bt(3) by simp
  with bt(1) r ok show ?thesis by (auto simp: leaf_ok_def)
qed

section \<open>Replaying the log\<close>

text \<open>
  One step of the replay loop for each shape of the input, and the content of a log written
  by successful \<^verbatim>\<open>WriteEntry\<close> calls: every call makes a new encoder, so every record
  starts with the definition of \<^verbatim>\<open>WALEntry\<close> again.
\<close>

lemma read_loop_Nil [simp]:
  "read_loop \<lparr>dec_input = [], dec_wireType = known\<rparr> entries = entries"
  by (simp add: read_loop.simps[of "\<lparr>dec_input = [], dec_wireType = known\<rparr>"] Decode_def)

lemma read_loop_value [simp]:
  "read_loop \<lparr>dec_input = Gob_value entry # rest, dec_wireType = known\<rparr> entries =
   read_loop \<lparr>dec_input = rest, dec_wireType = known\<rparr> (entries @ [entry])"
  by (simp add: read_loop.simps[of "\<lparr>dec_input = Gob_value entry # rest, dec_wireType = known\<rparr>"]
      Decode_def)

lemma read_loop_duplicate [simp]:
  "t \<in> set known \<Longrightarrow>
   read_loop \<lparr>dec_input = Gob_type_definition t # rest, dec_wireType = known\<rparr> entries = entries"
  by (simp add: read_loop.simps[of "\<lparr>dec_input = Gob_type_definition t # rest, dec_wireType = known\<rparr>"]
      Decode_def)

lemma read_loop_new_type [simp]:
  "t \<notin> set known \<Longrightarrow>
   read_loop \<lparr>dec_input = Gob_type_definition t # rest, dec_wireType = known\<rparr> entries =
   read_loop \<lparr>dec_input = rest, dec_wireType = known @ [t]\<rparr> entries"
  by (simp add: read_loop.simps[of "\<lparr>dec_input = Gob_type_definition t # rest, dec_wireType = known\<rparr>"]
      read_loop.simps[of "\<lparr>dec_input = rest, dec_wireType = known @ [t]\<rparr>"] Decode_def)

lemma Encode_fresh:
  "fst (Encode NewEncoder entry) = map Gob_type_definition (entry_types entry) @ [Gob_value entry]"
  by (simp add: Encode_def NewEncoder_def Let_def)

lemma entry_types_cases:
  "entry_types entry = [Gob_WALEntry] \<or> entry_types entry = [Gob_WALEntry, Gob_Document]"
  by (auto simp: entry_types_def split: option.splits any.splits)

fun WriteEntries :: "WAL \<Rightarrow> WALEntry list \<Rightarrow> WAL" where
  "WriteEntries w [] = w"
| "WriteEntries w (entry # entries) = WriteEntries (snd (WriteEntry Io_ok w entry)) entries"

lemma WriteEntry_Io_ok:
  "WriteEntry Io_ok w entry =
     (None, w\<lparr>wal_file := wal_file w @ wal_writer w @ fst (Encode NewEncoder entry),
              wal_writer := []\<rparr>)"
  by (simp add: WriteEntry_def)

lemma WriteEntries_file:
  "wal_writer w = [] \<Longrightarrow>
   wal_file (WriteEntries w entries) =
   wal_file w @ concat (map (\<lambda>entry. fst (Encode NewEncoder entry)) entries)"
  by (induction entries arbitrary: w) (simp_all add: WriteEntry_Io_ok)

lemma concat_Encode_head:
  "concat (map (\<lambda>entry. fst (Encode NewEncoder entry)) entries) = [] \<or>
   (\<exists>rest. concat (map (\<lambda>entry. fst (Encode NewEncoder entry)) entries) =
      Gob_type_definition Gob_WALEntry # rest)"
  by (cases entries) (auto simp: Encode_fresh entry_types_def)

lemma ReadEntries_first_only:
  "ReadEntries (WriteEntries (NewWAL []) (entry # entries)) = [entry]"
proof -
  let ?tail = "concat (map (\<lambda>entry. fst (Encode NewEncoder entry)) entries)"
  have fl: "wal_file (WriteEntries (NewWAL []) (entry # entries)) =
      map Gob_type_definition (entry_types entry) @ Gob_value entry # ?tail"
    by (simp add: WriteEntries_file WriteEntry_Io_ok NewWAL_def Encode_fresh)
  have tail: "read_loop \<lparr>dec_input = ?tail, dec_wireType = known\<rparr> [entry] = [entry]"
    if "Gob_WALEntry \<in> set known" for known
  proof (rule disjE[OF concat_Encode_head[of entries]])
    assume "?tail = []"
    then show ?thesis by (simp only: read_loop_Nil)
  next
    assume "\<exists>rest. ?tail = Gob_type_definition Gob_WALEntry # rest"
    then obtain rest where "?tail = Gob_type_definition Gob_WALEntry # rest" ..
    with that show ?thesis by (simp only: read_loop_duplicate)
  qed
  from entry_types_cases[of entry] show ?thesis
  proof
    assume "entry_types entry = [Gob_WALEntry]"
    with tail[of "[Gob_WALEntry]"] show ?thesis
      by (simp add: ReadEntries_def NewDecoder_def fl del: WriteEntries.simps)
  next
    assume "entry_types entry = [Gob_WALEntry, Gob_Document]"
    with tail[of "[Gob_WALEntry, Gob_Document]"] show ?thesis
      by (simp add: ReadEntries_def NewDecoder_def fl del: WriteEntries.simps)
  qed
qed

text \<open>
  A failed encoding leaves the type definitions of its encoder in the buffer. The next
  successful call writes them to the file ahead of its own, and the decoder stops at the
  second definition of \<^verbatim>\<open>WALEntry\<close>, before it has read a record.
\<close>

lemma WriteEntry_after_failed_encoding:
  "wal_file (snd (WriteEntry Io_ok (snd (WriteEntry Encode_fails (NewWAL []) entry)) entry')) =
     map Gob_type_definition (entry_types entry) @
     map Gob_type_definition (entry_types entry') @ [Gob_value entry']"
  by (simp add: WriteEntry_def NewWAL_def Encode_fresh Let_def)

lemma ReadEntries_after_failed_encoding:
  "ReadEntries (snd (WriteEntry Io_ok (snd (WriteEntry Encode_fails (NewWAL []) entry)) entry')) =
     []"
proof -
  obtain ts where ts: "entry_types entry' = Gob_WALEntry # ts"
    by (simp add: entry_types_def)
  from entry_types_cases[of entry] show ?thesis
  proof
    assume "entry_types entry = [Gob_WALEntry]"
    then show ?thesis
      by (simp add: ReadEntries_def NewDecoder_def WriteEntry_after_failed_encoding ts)
  next
    assume "entry_types entry = [Gob_WALEntry, Gob_Document]"
    then show ?thesis
      by (simp add: ReadEntries_def NewDecoder_def WriteEntry_after_failed_encoding ts)
  qed
qed

section \<open>Invariants of the engine\<close>

text \<open>
  No code of the package gives a node an expiry time, the memtable of the engine is a
  well-formed chain and its B-tree is one sorted leaf. These hold for the engine that
  \<^verbatim>\<open>NewEngine\<close> returns on a directory without a B-tree image and after every operation,
  a flush included; the flush never panics. \<open>apply_op\<close> runs one operation and keeps the
  state, \<open>mem_hits\<close> and \<open>disk_hits\<close> are the entries that the two scans of a query
  visit, and \<open>matching\<close> selects the documents among them that pass the filter.
\<close>

definition no_ttl :: "SkipListNode list \<Rightarrow> bool" where
  "no_ttl ns = list_all (\<lambda>n. n_ttl n = None) ns"

definition engine_ok :: "Engine \<Rightarrow> bool" where
  "engine_ok e =
     (wf_nodes (mt_nodes (memtable e)) \<and> no_ttl (mt_nodes (memtable e)) \<and> bt_ok (btree e))"

lemma no_ttl_Put:
  assumes "wf_nodes (mt_nodes mt)" "no_ttl (mt_nodes mt)"
  shows "no_ttl (mt_nodes (Memtable_Put mt k v))"
proof (cases "below (mt_nodes mt) k < length (mt_nodes mt) \<and>
         n_key (mt_nodes mt ! below (mt_nodes mt) k) = k")
  case True
  let ?p = "below (mt_nodes mt) k"
  have "n_ttl x = None"
    if "x \<in> set ((mt_nodes mt)[?p := (mt_nodes mt ! ?p)\<lparr>n_value := v\<rparr>])" for x
  proof -
    from that have "x = (mt_nodes mt ! ?p)\<lparr>n_value := v\<rparr> \<or> x \<in> set (mt_nodes mt)"
      using set_update_subset_insert[of "mt_nodes mt" ?p] by auto
    moreover from assms(2) True have "n_ttl (mt_nodes mt ! ?p) = None"
      by (simp add: no_ttl_def list_all_length)
    moreover from assms(2) have "y \<in> set (mt_nodes mt) \<Longrightarrow> n_ttl y = None" for y
      by (simp add: no_ttl_def list_all_iff)
    ultimately show ?thesis by auto
  qed
  with assms(1) True show ?thesis
    by (simp add: Memtable_Put_wf_eq no_ttl_def list_all_iff)
next
  case False
  with assms show ?thesis
    by (auto simp: Memtable_Put_wf_eq no_ttl_def list_all_iff new_node_def
        dest: in_set_takeD in_set_dropD)
qed

lemma no_ttl_Delete:
  assumes "wf_nodes (mt_nodes mt)" "no_ttl (mt_nodes mt)"
  shows "no_ttl (mt_nodes (snd (Memtable_Delete mt k)))"
  using assms
  by (auto simp: Memtable_Delete_wf_eq no_ttl_def list_all_iff dest: in_set_takeD in_set_dropD)

lemma WriteEntry_cases:
  "fst (WriteEntry io w entry) =
     (case io of Io_ok \<Rightarrow> None | Encode_fails \<Rightarrow> Some Wal_encode_failed
      | Flush_fails \<Rightarrow> Some Wal_flush_failed | Sync_fails \<Rightarrow> Some Wal_sync_failed)"
  by (cases io) (simp_all add: WriteEntry_def)

lemma Engine_Put_result:
  "fst (Engine_Put env e collection docID data) =
     (case env_io env of Io_ok \<Rightarrow> None | Encode_fails \<Rightarrow> Some Wal_encode_failed
      | Flush_fails \<Rightarrow> Some Wal_flush_failed | Sync_fails \<Rightarrow> Some Wal_sync_failed)"
  by (cases "env_io env")
    (simp_all add: Engine_Put_def WriteEntry_def Let_def split: prod.splits option.splits)

lemma Engine_Delete_result:
  "fst (Engine_Delete env e collection docID) =
     (case env_io env of Io_ok \<Rightarrow> None | Encode_fails \<Rightarrow> Some Wal_encode_failed
      | Flush_fails \<Rightarrow> Some Wal_flush_failed | Sync_fails \<Rightarrow> Some Wal_sync_failed)"
  by (cases "env_io env")
    (simp_all add: Engine_Delete_def WriteEntry_def Let_def split: prod.splits option.splits)

lemma Engine_Put_memtable:
  "memtable (snd (Engine_Put env e collection docID data)) = memtable e \<or>
   (\<exists>v. memtable (snd (Engine_Put env e collection docID data)) =
      Memtable_Put (memtable e) (collection @ '':'' @ docID) v)"
  by (cases "env_io env")
    (auto simp: Engine_Put_def WriteEntry_def Let_def split: prod.splits option.splits)

lemma Engine_Put_btree: "btree (snd (Engine_Put env e collection docID data)) = btree e"
  by (cases "env_io env")
    (auto simp: Engine_Put_def WriteEntry_def Let_def split: prod.splits option.splits)

lemma Engine_Put_ok: "engine_ok e \<Longrightarrow> engine_ok (snd (Engine_Put env e collection docID data))"
  using Engine_Put_memtable[of env e collection docID data]
  by (auto simp: engine_ok_def Engine_Put_btree Memtable_Put_wf no_ttl_Put)

lemma Engine_Delete_ok: "engine_ok e \<Longrightarrow> engine_ok (snd (Engine_Delete env e collection docID))"
  by (cases "env_io env")
    (auto simp: engine_ok_def Engine_Delete_def WriteEntry_def Let_def Memtable_Delete_wf no_ttl_Delete)

lemma CreateIndex_ok: "engine_ok e \<Longrightarrow> engine_ok (snd (CreateIndex env e collection field))"
  by (auto simp: engine_ok_def CreateIndex_def Let_def split: prod.splits)

lemma flush_loop_ok:
  "bt_ok bt \<Longrightarrow> \<exists>bt'. range_loop now p flush_visitor ns (Inr bt) = Inr bt' \<and> bt_ok bt'"
proof (induction ns arbitrary: bt)
  case Nil
  then show ?case by simp
next
  case (Cons n ns)
  from BTree_Put_ok[OF Cons.prems, of "n_key n" "n_value n"] obtain r where
    r: "BTree_Put bt (n_key n) (n_value n) = Inr (bt\<lparr>bt_root := Some r\<rparr>)" "leaf_ok r"
    by blast
  then have "bt_ok (bt\<lparr>bt_root := Some r\<rparr>)" by (simp add: bt_ok_def)
  from Cons.IH[OF this] Cons.IH[OF Cons.prems] r(1) show ?case
    by (auto simp: flush_visitor_def)
qed

lemma flushMemtable_ok:
  assumes "engine_ok e"
  shows "\<exists>e'. flushMemtable now coins e = Inr e' \<and> engine_ok e'"
proof (cases "Memtable_IsEmpty (memtable e)")
  case True
  with assms show ?thesis by (simp add: flushMemtable_def)
next
  case False
  from assms have "bt_ok (btree e)" by (simp add: engine_ok_def)
  from flush_loop_ok[OF this, of now "[]" "mt_nodes (memtable e)"] obtain bt' where
    "range_loop now [] flush_visitor (mt_nodes (memtable e)) (Inr (btree e)) = Inr bt'" "bt_ok bt'"
    by blast
  with False show ?thesis
    by (simp add: flushMemtable_def Memtable_Range_def Let_def
        engine_ok_def wf_nodes_def no_ttl_def NewMemtable_def)
qed

lemma run_flush_ok:
  assumes "engine_ok e"
  shows "\<exists>e'. run_flush now coins e = Inr e' \<and> engine_ok e'"
proof (cases "flushes_spawned e = 0")
  case True
  with assms show ?thesis by (simp add: run_flush_def)
next
  case False
  from assms have "engine_ok (e\<lparr>flushes_spawned := flushes_spawned e - 1\<rparr>)"
    by (simp add: engine_ok_def)
  from flushMemtable_ok[OF this] False show ?thesis by (simp add: run_flush_def)
qed

lemma replay_ok:
  "wf_nodes (mt_nodes mt) \<Longrightarrow> no_ttl (mt_nodes mt) \<Longrightarrow>
   wf_nodes (mt_nodes (replay mt entry)) \<and> no_ttl (mt_nodes (replay mt entry))"
  by (auto simp: replay_def Memtable_Put_wf no_ttl_Put Memtable_Delete_wf no_ttl_Delete
      split: WALEntryType.splits option.splits any.splits)

lemma foldl_replay_ok:
  "wf_nodes (mt_nodes mt) \<Longrightarrow> no_ttl (mt_nodes mt) \<Longrightarrow>
   wf_nodes (mt_nodes (foldl replay mt entries)) \<and> no_ttl (mt_nodes (foldl replay mt entries))"
  by (induction entries arbitrary: mt) (simp_all add: replay_ok)

lemma NewEngine_ok: "engine_ok (NewEngine cfg log None coins)"
proof -
  have "wf_nodes (mt_nodes (NewMemtable (MemtableSize cfg) coins))"
    "no_ttl (mt_nodes (NewMemtable (MemtableSize cfg) coins))"
    by (simp_all add: wf_nodes_def no_ttl_def NewMemtable_def)
  then show ?thesis
    by (simp add: engine_ok_def NewEngine_def recover_def foldl_replay_ok NewBTree_ok)
qed


datatype op =
    Op_Put env string string "string \<rightharpoonup> val"
  | Op_Delete env string string
  | Op_CreateIndex env string string
  | Op_Flush int "bool list"

fun apply_op :: "Engine \<Rightarrow> op \<Rightarrow> Engine" where
  "apply_op e (Op_Put env collection docID data) = snd (Engine_Put env e collection docID data)"
| "apply_op e (Op_Delete env collection docID) = snd (Engine_Delete env e collection docID)"
| "apply_op e (Op_CreateIndex env collection field) = snd (CreateIndex env e collection field)"
| "apply_op e (Op_Flush now coins) = (case run_flush now coins e of Inr e' \<Rightarrow> e' | Inl err \<Rightarrow> e)"

lemma apply_op_ok: "engine_ok e \<Longrightarrow> engine_ok (apply_op e x)"
proof (cases x)
  case (Op_Flush now coins)
  assume "engine_ok e"
  from run_flush_ok[OF this, of now coins] Op_Flush show ?thesis by auto
qed (simp_all add: Engine_Put_ok Engine_Delete_ok CreateIndex_ok)

lemma foldl_apply_op_ok: "engine_ok e \<Longrightarrow> engine_ok (foldl apply_op e ops)"
  by (induction ops arbitrary: e) (simp_all add: apply_op_ok)

definition mem_hits :: "Engine \<Rightarrow> string \<Rightarrow> (string \<times> any) list" where
  "mem_hits e collection =
     filter (\<lambda>(k, v). HasPrefix k (collection @ '':''))
       (map (\<lambda>n. (n_key n, n_value n)) (mt_nodes (memtable e)))"

definition disk_hits :: "Engine \<Rightarrow> string \<Rightarrow> (string \<times> any) list" where
  "disk_hits e collection =
     filter (\<lambda>(k, v). HasPrefix k (collection @ '':'')) (bt_entries (btree e))"

definition matching :: "(string \<times> val) list \<Rightarrow> any list \<Rightarrow> Document list" where
  "matching flt vs =
     concat (map (\<lambda>v. case v of
                         ADoc doc \<Rightarrow> if matchesFilter doc flt = Inr True then [doc] else []
                       | _ \<Rightarrow> []) vs)"

lemma range_collect:
  "no_ttl ns \<Longrightarrow>
   range_loop now p (\<lambda>key v results. (True, collect flt v results)) ns r =
   fold (collect flt)
     (map snd (filter (\<lambda>(k, v). HasPrefix k p) (map (\<lambda>n. (n_key n, n_value n)) ns))) r"
  by (induction ns arbitrary: r) (simp_all add: no_ttl_def)

lemma fold_collect_Inl: "fold (collect flt) vs (Inl err) = Inl err"
  by (induction vs) (simp_all add: collect_def)

lemma fold_collect_Inr:
  "fold (collect flt) vs (Inr acc) = Inr docs \<Longrightarrow> docs = acc @ matching flt vs"
proof (induction vs arbitrary: acc)
  case Nil
  then show ?case by (simp add: matching_def)
next
  case (Cons v vs)
  show ?case
  proof (cases "collect flt v (Inr acc)")
    case (Inl err)
    with Cons.prems show ?thesis by (simp add: fold_collect_Inl)
  next
    case (Inr acc')
    with Cons.prems have "docs = acc' @ matching flt vs" by (simp add: Cons.IH)
    moreover from Inr have "acc' = acc @ matching flt [v]"
      by (auto simp: collect_def matching_def split: any.splits sum.splits bool.splits if_splits)
    ultimately show ?thesis by (simp add: matching_def)
  qed
qed

lemma matching_append: "matching flt (vs @ ws) = matching flt vs @ matching flt ws"
  by (simp add: matching_def)

lemma Engine_Query_ok:
  assumes "engine_ok e"
  shows "Engine_Query now e collection flt =
     fold (collect flt) (map snd (mem_hits e collection) @ map snd (disk_hits e collection))
       (Inr [])"
proof -
  let ?m = "map snd (mem_hits e collection)" and ?d = "map snd (disk_hits e collection)"
  from assms have "Engine_Query now e collection flt =
      (case fold (collect flt) ?m (Inr []) of
         Inl err \<Rightarrow> Inl err
       | Inr _ \<Rightarrow> fold (collect flt) ?d (fold (collect flt) ?m (Inr [])))"
    by (simp add: Engine_Query_def Let_def Memtable_Range_def range_collect BTree_Range_ok
        engine_ok_def mem_hits_def disk_hits_def split: sum.splits)
  also have "\<dots> = fold (collect flt) (?m @ ?d) (Inr [])"
    by (cases "fold (collect flt) ?m (Inr [])") (simp_all add: fold_collect_Inl)
  finally show ?thesis .
qed

lemma hits_distinct:
  assumes "engine_ok e"
  shows "distinct (map fst (mem_hits e collection))" "distinct (map fst (disk_hits e collection))"
proof -
  from assms have "distinct (map n_key (mt_nodes (memtable e)))"
    by (simp add: engine_ok_def wf_nodes_distinct)
  then have "distinct (map fst (map (\<lambda>n. (n_key n, n_value n)) (mt_nodes (memtable e))))"
    by (simp add: comp_def)
  then show "distinct (map fst (mem_hits e collection))"
    unfolding mem_hits_def by (rule distinct_map_filter)
  from assms have "distinct (map fst (bt_entries (btree e)))"
    by (simp add: engine_ok_def bt_entries_distinct)
  then show "distinct (map fst (disk_hits e collection))"
    unfolding disk_hits_def by (rule distinct_map_filter)
qed

text \<open>
  What \<^verbatim>\<open>Put\<close> followed by \<^verbatim>\<open>Get\<close> yields in such a state: the new body, and a version
  counted from the version that the memtable (not the B-tree) holds for the key.
\<close>

lemma lower_bound_insert:
  "\<forall>y\<in>set xs. y < x \<Longrightarrow> lower_bound (xs @ x # ys) x = length xs"
  by (simp add: lower_bound_def takeWhile_append2)

lemma Memtable_Get_Put:
  assumes wf: "wf_nodes (mt_nodes mt)" and nt: "no_ttl (mt_nodes mt)"
  shows "Memtable_Get now (Memtable_Put mt k v) k = Some v"
proof -
  let ?ns = "mt_nodes mt"
  let ?p = "below ?ns k"
  let ?mt' = "Memtable_Put mt k v"
  from wf have wf': "wf_nodes (mt_nodes ?mt')" by (rule Memtable_Put_wf)
  from wf nt have nt': "no_ttl (mt_nodes ?mt')" by (rule no_ttl_Put)
  have "below (mt_nodes ?mt') k < length (mt_nodes ?mt') \<and>
        n_key (mt_nodes ?mt' ! below (mt_nodes ?mt') k) = k \<and>
        n_value (mt_nodes ?mt' ! below (mt_nodes ?mt') k) = v"
  proof (cases "?p < length ?ns \<and> n_key (?ns ! ?p) = k")
    case True
    then have n: "mt_nodes ?mt' = ?ns[?p := (?ns ! ?p)\<lparr>n_value := v\<rparr>]"
      using wf by (simp add: Memtable_Put_wf_eq)
    have "map n_key (?ns[?p := (?ns ! ?p)\<lparr>n_value := v\<rparr>]) = map n_key ?ns"
      using True by (simp add: map_update list_update_same_conv)
    then have "below (mt_nodes ?mt') k = ?p" by (simp add: n below_def)
    with True show ?thesis by (simp add: n)
  next
    case False
    then have n: "mt_nodes ?mt' = take ?p ?ns @ new_node mt k v # drop ?p ?ns"
      using wf by (auto simp: Memtable_Put_wf_eq)
    have "\<forall>y\<in>set (take ?p (map n_key ?ns)). y < k"
      using take_lower_bound[of _ "map n_key ?ns" k] by (auto simp: below_def)
    then have "lower_bound (take ?p (map n_key ?ns) @ k # drop ?p (map n_key ?ns)) k =
        length (take ?p (map n_key ?ns))"
      by (rule lower_bound_insert)
    moreover have "?p \<le> length ?ns" by (rule below_le)
    ultimately have b: "below (mt_nodes ?mt') k = ?p"
      by (simp add: n below_def take_map drop_map new_node_def min_def)
    from \<open>?p \<le> length ?ns\<close> have "(take ?p ?ns @ new_node mt k v # drop ?p ?ns) ! ?p = new_node mt k v"
      by (simp add: nth_append min_def)
    with b \<open>?p \<le> length ?ns\<close> show ?thesis by (simp add: n new_node_def)
  qed
  moreover from this nt' have "n_ttl (mt_nodes ?mt' ! below (mt_nodes ?mt') k) = None"
    by (simp add: no_ttl_def list_all_length)
  ultimately show ?thesis using wf' by (simp add: Memtable_Get_wf_eq)
qed

lemma Put_then_Get:
  assumes ok: "engine_ok e" and put: "Engine_Put env e collection docID data = (None, e')"
  shows "\<exists>doc. Engine_Get now e' collection docID = Inr doc \<and> ID doc = docID \<and> Data doc = data \<and>
           Version doc =
             (case Memtable_Get (env_now env) (memtable e) (collection @ '':'' @ docID) of
                Some (ADoc existingDoc) \<Rightarrow> Version existingDoc + 1
              | _ \<Rightarrow> 1)"
proof -
  from ok have wf: "wf_nodes (mt_nodes (memtable e))" and nt: "no_ttl (mt_nodes (memtable e))"
    by (simp_all add: engine_ok_def)
  from put have io: "env_io env = Io_ok"
    using Engine_Put_result[of env e collection docID data] by (cases "env_io env") simp_all
  define doc where "doc =
     (case Memtable_Get (env_now env) (memtable e) (collection @ '':'' @ docID) of
        Some (ADoc existingDoc) \<Rightarrow>
          \<lparr>ID = docID, Data = data, CreatedAt = CreatedAt existingDoc, UpdatedAt = env_now env,
           Version = Version existingDoc + 1\<rparr>
      | _ \<Rightarrow> \<lparr>ID = docID, Data = data, CreatedAt = env_now env, UpdatedAt = env_now env,
               Version = 1\<rparr>)"
  from put io have "memtable e' = Memtable_Put (memtable e) (collection @ '':'' @ docID) (ADoc doc)"
    by (auto simp: Engine_Put_def WriteEntry_def Let_def doc_def split: option.splits any.splits)
  with wf nt have "Memtable_Get now (memtable e') (collection @ '':'' @ docID) = Some (ADoc doc)"
    by (simp add: Memtable_Get_Put)
  then have "Engine_Get now e' collection docID = Inr doc"
    by (simp add: Engine_Get_def)
  moreover have "ID doc = docID" "Data doc = data"
    "Version doc =
       (case Memtable_Get (env_now env) (memtable e) (collection @ '':'' @ docID) of
          Some (ADoc existingDoc) \<Rightarrow> Version existingDoc + 1
        | _ \<Rightarrow> 1)"
    by (simp_all add: doc_def split: option.splits any.splits)
  ultimately show ?thesis by blast
qed


section \<open>The claims of the specification\<close>

subsection \<open>The filter comparison\<close>

definition uncomparable :: "val \<Rightarrow> val \<Rightarrow> bool" where
  \<comment> \<open>both values are lists, or both are maps\<close>
  "uncomparable a b =
     (case (a, b) of (VList _, VList _) \<Rightarrow> True | (VMap _, VMap _) \<Rightarrow> True | _ \<Rightarrow> False)"

text \<open>
  As long as the two values are not both lists or both maps, \<^verbatim>\<open>valuesEqual\<close> returns what
  its comment describes: true exactly when the values are directly equal, or both numeric
  and equal as doubles.
\<close>

lemma valuesEqual_comparable:
  assumes "\<not> uncomparable a b"
  shows "valuesEqual a b =
     Inr (iface_eq a b = Inr True \<or>
          (snd (toFloat64 a) \<and> snd (toFloat64 b) \<and>
           f64_eq (fst (toFloat64 a)) (fst (toFloat64 b))) \<or>
          (\<exists>s. a = VString s \<and> b = VString s) \<or>
          (\<exists>c. a = VBool c \<and> b = VBool c))"
  using assms
  by (cases a; cases b;
      auto simp: valuesEqual_def iface_eq_def uncomparable_def split: bool.splits)

lemma bit_length_30: "bit_length 30 = 5"
  by (simp add: bit_length.simps)

lemma f64_of_int_30: "f64_of_int 30 = 0x403E000000000000"
  by (simp add: f64_of_int_def f64_of_nat_def bit_length_30)

lemma valuesEqual_30: "valuesEqual (VInt 30) (VFloat64 0x403E000000000000) = Inr True"
  by (simp add: valuesEqual_def iface_eq_def f64_of_int_30 f64_eq_def f64_is_nan_def)

text \<open>
  Claim C9 says that \<^verbatim>\<open>valuesEqual\<close> returns true or false for all values. The first
  statement of the function, \<^verbatim>\<open>a == b\<close>, compares two interface values; when both hold a
  map (or both a slice) Go panics with ``comparing uncomparable type'', so for two nested
  mappings or two lists the function returns nothing.
\<close>

theorem valuesEqual_panics_on_composites:
  "valuesEqual (VMap []) (VMap []) = Inl Panic_uncomparable \<and>
   valuesEqual (VList [VString ''a'']) (VList [VString ''a'']) = Inl Panic_uncomparable \<and>
   matchesFilter \<lparr>ID = ''u1'', Data = [''tags'' \<mapsto> VList [VString ''a'']], CreatedAt = 0,
                   UpdatedAt = 0, Version = 1\<rparr>
     [(''tags'', VList [VString ''a''])] = Inl Panic_uncomparable"
  by (simp add: valuesEqual_def iface_eq_def)

subsection \<open>Deleting a key that the memtable does not hold\<close>

definition two_node_memtable :: Memtable where
  "two_node_memtable =
     \<lparr>mt_nodes = [\<lparr>n_key = ''a'', n_value = AVal VNil, n_levels = 1, n_ttl = None\<rparr>,
                  \<lparr>n_key = ''c'', n_value = AVal (VBool True), n_levels = 2, n_ttl = None\<rparr>],
      mt_level = 1, mt_size = 67, mt_maxSize = 1024, mt_count = 2, mt_rand = []\<rparr>"

text \<open>
  Claim C10. For every memtable and every key \<open>k\<close> that no node of it carries,
  \<^verbatim>\<open>Delete(k)\<close> returns false and leaves the memtable as it was: \<^verbatim>\<open>Count()\<close>,
  \<^verbatim>\<open>Size()\<close> and the result of \<^verbatim>\<open>Get\<close> for every key (at every time) are the same before
  and after the call. The search loops only read, and the node they stop in front of
  carries another key.
\<close>

theorem Memtable_Delete_absent_key:
  assumes "k \<notin> n_key ` set (mt_nodes mt)"
  shows "fst (Memtable_Delete mt k) = False \<and>
         snd (Memtable_Delete mt k) = mt \<and>
         Memtable_Count (snd (Memtable_Delete mt k)) = Memtable_Count mt \<and>
         Memtable_Size (snd (Memtable_Delete mt k)) = Memtable_Size mt \<and>
         (\<forall>now k'. Memtable_Get now (snd (Memtable_Delete mt k)) k' = Memtable_Get now mt k')"
proof -
  let ?ns = "mt_nodes mt"
  let ?cur = "descend ?ns k (mt_level mt) 0"
  have "n_key (?ns ! (q - 1)) \<noteq> k" if "forward ?ns ?cur 0 = Some q" for q
  proof -
    from forward_in_range[OF that] have "q - 1 < length ?ns" by simp
    then have "?ns ! (q - 1) \<in> set ?ns" by simp
    with assms show ?thesis by auto
  qed
  then have "Memtable_Delete mt k = (False, mt)"
    by (auto simp: Memtable_Delete_def Let_def)
  then show ?thesis by simp
qed

theorem Memtable_Delete_absent_key_witness:
  "''b'' \<notin> n_key ` set (mt_nodes two_node_memtable) \<and>
   fst (Memtable_Delete two_node_memtable ''b'') = False \<and>
   snd (Memtable_Delete two_node_memtable ''b'') = two_node_memtable \<and>
   Memtable_Count (snd (Memtable_Delete two_node_memtable ''b'')) = 2 \<and>
   Memtable_Size (snd (Memtable_Delete two_node_memtable ''b'')) = 67"
proof -
  have h: "''b'' \<notin> n_key ` set (mt_nodes two_node_memtable)"
    by (simp add: two_node_memtable_def)
  have c: "Memtable_Count two_node_memtable = 2" "Memtable_Size two_node_memtable = 67"
    by (simp_all add: two_node_memtable_def Memtable_Count_def Memtable_Size_def)
  from Memtable_Delete_absent_key[OF h] h c show ?thesis by simp
qed

subsection \<open>The size of B-tree nodes\<close>

definition many_keys :: "(string \<times> any) list" where
  "many_keys = map (\<lambda>i. (replicate i CHR ''k'', AVal VNil)) [0..<256]"

lemma many_keys_card: "card (fst ` set many_keys) = 256"
proof -
  have "fst ` set many_keys = (\<lambda>i. replicate i CHR ''k'') ` {0..<256}"
    by (auto simp: many_keys_def image_iff)
  moreover have "inj_on (\<lambda>i. replicate i CHR ''k'') {0..<256::nat}"
    by (rule inj_onI) (metis length_replicate)
  ultimately show ?thesis by (simp add: card_image)
qed

text \<open>
  Claim C6 says that after every sequence of \<^verbatim>\<open>Put\<close> calls every node, the root included,
  holds at most \<open>btreeOrder - 1 = 255\<close> keys. Putting 256 different keys into the empty
  tree leaves a root leaf with 256 keys: \<^verbatim>\<open>Put\<close> never splits the root.
\<close>

theorem root_leaf_exceeds_order:
  "\<exists>bt r. BTree_Puts (NewBTree None) many_keys = Inr bt \<and> bt_root bt = Some r \<and> IsLeaf r \<and>
     Children r = [] \<and> length (Keys r) = 256 \<and> btreeOrder - 1 < length (Keys r)"
  using BTree_Puts_single_leaf[of many_keys] by (auto simp: many_keys_card btreeOrder_def)


subsection \<open>Range scans of the B-tree\<close>

text \<open>\<open>BTree_Puts\<close> is a sequence of \<^verbatim>\<open>Put\<close> calls, in list order.\<close>

definition some_puts :: "(string \<times> any) list" where
  "some_puts =
     [(''users:u2'', AVal (VString ''y'')), (''posts:p1'', AVal VNil),
      (''users:u1'', AVal (VString ''x'')), (''users:u2'', AVal (VString ''z''))]"

text \<open>
  A tree built from the empty tree by a sequence of \<^verbatim>\<open>Put\<close> calls is a single leaf (lemma
  \<open>BTree_Puts_single_leaf\<close>). On such a tree, for every prefix \<open>p\<close>: the calls succeed,
  \<^verbatim>\<open>Get\<close> returns for every key the value of its last \<^verbatim>\<open>Put\<close>, and \<^verbatim>\<open>Range(p)\<close> returns the
  value stored for every key of the tree that starts with \<open>p\<close>.
\<close>

lemma BTree_Range_of_single_leaf:
  "\<exists>bt. BTree_Puts (NewBTree None) kvs = Inr bt \<and>
     (\<forall>k. BTree_Get bt k =
           (case map_of (rev kvs) k of Some v \<Rightarrow> Inr v | None \<Rightarrow> Inl Key_not_found)) \<and>
     (\<forall>p k v. BTree_Get bt k = Inr v \<and> HasPrefix k p \<longrightarrow>
              (\<exists>vs. BTree_Range bt p = Inr vs \<and> v \<in> set vs))"
proof -
  from BTree_Puts_ok[OF NewBTree_ok(1), of kvs] obtain bt where
    bt: "BTree_Puts (NewBTree None) kvs = Inr bt" "bt_ok bt"
      "map_of (bt_entries bt) = map_of (rev kvs)"
    by (auto simp: NewBTree_ok(2))
  have "\<exists>vs. BTree_Range bt p = Inr vs \<and> v \<in> set vs"
    if "BTree_Get bt k = Inr v" "HasPrefix k p" for p k v
  proof -
    from that(1) bt(2) have "map_of (bt_entries bt) k = Some v"
      by (simp add: BTree_Get_ok split: option.splits)
    then have "(k, v) \<in> set (bt_entries bt)" by (rule map_of_SomeD)
    with that(2) have "v \<in> snd ` set (filter (\<lambda>(k, v). HasPrefix k p) (bt_entries bt))"
      by force
    with bt(2) show ?thesis by (simp add: BTree_Range_ok)
  qed
  with bt show ?thesis by (auto simp: BTree_Get_ok)
qed

lemma BTree_Range_of_single_leaf_example:
  "\<exists>bt. BTree_Puts (NewBTree None) some_puts = Inr bt \<and>
     BTree_Get bt ''users:u2'' = Inr (AVal (VString ''z'')) \<and>
     HasPrefix ''users:u2'' ''users:'' \<and>
     (\<exists>vs. BTree_Range bt ''users:'' = Inr vs \<and> AVal (VString ''z'') \<in> set vs)"
proof -
  from BTree_Range_of_single_leaf[of some_puts] obtain bt where
    bt: "BTree_Puts (NewBTree None) some_puts = Inr bt"
      "\<And>k. BTree_Get bt k =
         (case map_of (rev some_puts) k of Some v \<Rightarrow> Inr v | None \<Rightarrow> Inl Key_not_found)"
      "\<And>p k v. BTree_Get bt k = Inr v \<and> HasPrefix k p \<Longrightarrow>
         \<exists>vs. BTree_Range bt p = Inr vs \<and> v \<in> set vs"
    by blast
  have g: "BTree_Get bt ''users:u2'' = Inr (AVal (VString ''z''))"
    by (simp add: bt(2) some_puts_def)
  have h: "HasPrefix ''users:u2'' ''users:''" by (simp add: HasPrefix_def)
  from bt(3)[of "''users:u2''" _ "''users:''"] g h bt(1) show ?thesis by blast
qed

text \<open>
  On an internal node \<^verbatim>\<open>rangeSearch\<close> descends into the children and does not collect the
  values of the node itself: from a stored image with an internal root, the value under
  the separator key is left out.
\<close>

lemma rangeSearch_skips_internal_values:
  "rangeSearch (BTreeNode False [''b''] [AVal (VString ''y'')]
      [BTreeNode True [''a''] [AVal (VString ''x'')] [],
       BTreeNode True [''c''] [AVal (VString ''z'')] []]) [] [] =
   Inr [AVal (VString ''x''), AVal (VString ''z'')]"
  by (simp add: rangeSearch.simps[of "BTreeNode False u v w" for u v w]
      rangeSearch.simps[of "BTreeNode True u v w" for u v w] HasPrefix_def)

































subsection \<open>Scenarios on a running engine\<close>

text \<open>
  The scenarios run an engine on an empty directory. With \<^verbatim>\<open>MemtableSize = 64\<close> the first
  \<^verbatim>\<open>Put\<close> of a key already reaches the threshold (a document counts 64 bytes, the key its
  length), so that \<^verbatim>\<open>Put\<close> spawns a flush. Every write to the log succeeds. No indexed
  field holds a floating-point or composite value, so the renderings of the fmt package
  are never consulted; \<open>fmt_unused\<close> stands in for them.
\<close>

definition fmt_unused :: "val \<Rightarrow> string" where
  "fmt_unused v = []"

definition env_at :: "int \<Rightarrow> env" where
  "env_at t = \<lparr>env_now = t, env_io = Io_ok, env_fmt = fmt_unused\<rparr>"

definition body1 :: "string \<rightharpoonup> val" where
  "body1 = [''age'' \<mapsto> VInt 30]"

definition body2 :: "string \<rightharpoonup> val" where
  "body2 = [''age'' \<mapsto> VInt 31]"

definition doc1 :: Document where
  "doc1 = \<lparr>ID = ''u1'', Data = body1, CreatedAt = 100, UpdatedAt = 100, Version = 1\<rparr>"

definition doc2 :: Document where
  "doc2 = \<lparr>ID = ''u1'', Data = body2, CreatedAt = 103, UpdatedAt = 103, Version = 1\<rparr>"

definition entry1 :: WALEntry where
  "entry1 = \<lparr>entry_Type = WALPut, entry_Key = ''users:u1'', entry_Value = Some (ADoc doc1),
      entry_Timestamp = 100, entry_TxnID = []\<rparr>"

definition entry2 :: WALEntry where
  "entry2 = \<lparr>entry_Type = WALPut, entry_Key = ''users:u1'', entry_Value = Some (ADoc doc2),
      entry_Timestamp = 103, entry_TxnID = []\<rparr>"

definition entry3 :: WALEntry where
  "entry3 = \<lparr>entry_Type = WALDelete, entry_Key = ''users:u1'', entry_Value = None,
      entry_Timestamp = 103, entry_TxnID = []\<rparr>"

definition log1 :: "gob_message list" where
  "log1 = [Gob_type_definition Gob_WALEntry, Gob_type_definition Gob_Document, Gob_value entry1]"

definition state0 :: Engine where
  "state0 = NewEngine \<lparr>MemtableSize = 64\<rparr> [] None []"

definition state1 :: Engine where
  \<comment> \<open>after \<^verbatim>\<open>Put("users", "u1", {age: 30})\<close>\<close>
  "state1 =
     \<lparr>config = \<lparr>MemtableSize = 64\<rparr>,
      memtable = \<lparr>mt_nodes = [\<lparr>n_key = ''users:u1'', n_value = ADoc doc1, n_levels = 1,
                                n_ttl = None\<rparr>],
         mt_level = 0, mt_size = 72, mt_maxSize = 64, mt_count = 1, mt_rand = []\<rparr>,
      wal = \<lparr>wal_file = log1, wal_writer = []\<rparr>,
      btree = \<lparr>bt_root = Some (BTreeNode True [] [] [])\<rparr>,
      indexes = Map.empty, compacting = False, flushes_spawned = 1\<rparr>"

definition state2 :: Engine where
  \<comment> \<open>after the flush\<close>
  "state2 =
     \<lparr>config = \<lparr>MemtableSize = 64\<rparr>,
      memtable = \<lparr>mt_nodes = [], mt_level = 0, mt_size = 0, mt_maxSize = 64, mt_count = 0,
         mt_rand = []\<rparr>,
      wal = \<lparr>wal_file = log1, wal_writer = []\<rparr>,
      btree = \<lparr>bt_root = Some (BTreeNode True [''users:u1''] [ADoc doc1] [])\<rparr>,
      indexes = Map.empty, compacting = False, flushes_spawned = 0\<rparr>"

definition state3 :: Engine where
  \<comment> \<open>after the flush and \<^verbatim>\<open>Put("users", "u1", {age: 31})\<close>\<close>
  "state3 =
     \<lparr>config = \<lparr>MemtableSize = 64\<rparr>,
      memtable = \<lparr>mt_nodes = [\<lparr>n_key = ''users:u1'', n_value = ADoc doc2, n_levels = 1,
                                n_ttl = None\<rparr>],
         mt_level = 0, mt_size = 72, mt_maxSize = 64, mt_count = 1, mt_rand = []\<rparr>,
      wal = \<lparr>wal_file = log1 @ [Gob_type_definition Gob_WALEntry,
                                 Gob_type_definition Gob_Document, Gob_value entry2],
             wal_writer = []\<rparr>,
      btree = \<lparr>bt_root = Some (BTreeNode True [''users:u1''] [ADoc doc1] [])\<rparr>,
      indexes = Map.empty, compacting = False, flushes_spawned = 1\<rparr>"

definition state4 :: Engine where
  \<comment> \<open>after the flush and \<^verbatim>\<open>Delete("users", "u1")\<close>\<close>
  "state4 =
     \<lparr>config = \<lparr>MemtableSize = 64\<rparr>,
      memtable = \<lparr>mt_nodes = [], mt_level = 0, mt_size = 0, mt_maxSize = 64, mt_count = 0,
         mt_rand = []\<rparr>,
      wal = \<lparr>wal_file = log1 @ [Gob_type_definition Gob_WALEntry, Gob_value entry3],
             wal_writer = []\<rparr>,
      btree = \<lparr>bt_root = Some (BTreeNode True [''users:u1''] [ADoc doc1] [])\<rparr>,
      indexes = Map.empty, compacting = False, flushes_spawned = 0\<rparr>"

lemmas mt_eval =
  Memtable_Put_wf_eq Memtable_Get_wf_eq Memtable_Delete_wf_eq wf_nodes_def below_def
  lower_bound_def new_node_def Memtable_Size_def Memtable_IsEmpty_def

lemmas bt_eval =
  BTree_Put_def insert_node_leaf insertIntoLeaf_def SearchStrings_sorted lower_bound_def
  BTree_Get_ok BTree_Range_ok bt_ok_def leaf_ok_def bt_entries_def node_entries_def

lemma ReadEntries_empty: "ReadEntries \<lparr>wal_file = [], wal_writer = []\<rparr> = []"
  by (simp add: ReadEntries_def NewDecoder_def)

lemma state0_eq:
  "state0 =
     \<lparr>config = \<lparr>MemtableSize = 64\<rparr>,
      memtable = \<lparr>mt_nodes = [], mt_level = 0, mt_size = 0, mt_maxSize = 64, mt_count = 0,
         mt_rand = []\<rparr>,
      wal = \<lparr>wal_file = [], wal_writer = []\<rparr>,
      btree = \<lparr>bt_root = Some (BTreeNode True [] [] [])\<rparr>,
      indexes = Map.empty, compacting = False, flushes_spawned = 0\<rparr>"
  by (simp add: state0_def NewEngine_def recover_def ReadEntries_empty NewMemtable_def
      NewBTree_def NewWAL_def)

lemma Put_state0: "Engine_Put (env_at 100) state0 ''users'' ''u1'' body1 = (None, state1)"
  by (simp add: state0_eq state1_def Engine_Put_def env_at_def Let_def mt_eval WriteEntry_Io_ok
      Encode_fresh entry_types_def updateIndexes_def doc1_def entry1_def log1_def)

lemma flush_state1: "run_flush 101 [] state1 = Inr state2"
  by (simp add: state1_def state2_def run_flush_def flushMemtable_def Memtable_IsEmpty_def
      Memtable_Range_def flush_visitor_def HasPrefix_def Let_def bt_eval NewMemtable_def)

lemma Get_state1: "Engine_Get 100 state1 ''users'' ''u1'' = Inr doc1"
  by (simp add: state1_def Engine_Get_def Let_def mt_eval)

lemma Get_state2: "Engine_Get 102 state2 ''users'' ''u1'' = Inr doc1"
  by (simp add: state2_def Engine_Get_def Let_def mt_eval bt_eval)

lemma Put_state2: "Engine_Put (env_at 103) state2 ''users'' ''u1'' body2 = (None, state3)"
  by (simp add: state2_def state3_def Engine_Put_def env_at_def Let_def mt_eval WriteEntry_Io_ok
      Encode_fresh entry_types_def updateIndexes_def doc2_def entry2_def)

lemma Get_state3: "Engine_Get 104 state3 ''users'' ''u1'' = Inr doc2"
  by (simp add: state3_def Engine_Get_def Let_def mt_eval)

lemma Query_state3: "Engine_Query 105 state3 ''users'' [] = Inr [doc2, doc1]"
  by (simp add: state3_def Engine_Query_def Let_def Memtable_Range_def HasPrefix_def collect_def
      bt_eval)

lemma Delete_state2: "Engine_Delete (env_at 103) state2 ''users'' ''u1'' = (None, state4)"
  by (simp add: state2_def state4_def Engine_Delete_def env_at_def Let_def mt_eval
      WriteEntry_Io_ok Encode_fresh entry_types_def removeFromIndexes_def entry3_def)

lemma Get_state4: "Engine_Get 104 state4 ''users'' ''u1'' = Inr doc1"
  by (simp add: state4_def Engine_Get_def Let_def mt_eval bt_eval)

lemma state3_reached:
  "state3 = foldl apply_op (NewEngine \<lparr>MemtableSize = 64\<rparr> [] None [])
     [Op_Put (env_at 100) ''users'' ''u1'' body1, Op_Flush 101 [],
      Op_Put (env_at 103) ''users'' ''u1'' body2]"
  by (simp add: state0_def[symmetric] Put_state0 flush_state1 Put_state2)

subsection \<open>Versions across a flush\<close>

text \<open>
  Claim C1 says that after a successful \<^verbatim>\<open>Put(c, i, b)\<close> the document that \<^verbatim>\<open>Get(c, i)\<close>
  returns has the body \<open>b\<close> and a version one greater than the version stored for the key
  before, also when a flush lies between the operations. \<^verbatim>\<open>Put\<close> looks for the prior
  version in the memtable only (``Check if document exists and increment version''), while
  \<^verbatim>\<open>Get\<close> also reads the B-tree. In the scenario the first \<^verbatim>\<open>Put\<close> stores version 1 and
  spawns a flush; after the flush \<^verbatim>\<open>Get\<close> still returns version 1 from the B-tree; the
  second \<^verbatim>\<open>Put\<close> stores the new body, again with version 1 and a new creation time.
\<close>

theorem Put_restarts_version_after_flush:
  "Engine_Put (env_at 100) state0 ''users'' ''u1'' body1 = (None, state1) \<and>
   flushes_spawned state1 = 1 \<and>
   run_flush 101 [] state1 = Inr state2 \<and>
   Engine_Get 102 state2 ''users'' ''u1'' = Inr doc1 \<and> Version doc1 = 1 \<and>
   Engine_Put (env_at 103) state2 ''users'' ''u1'' body2 = (None, state3) \<and>
   Engine_Get 104 state3 ''users'' ''u1'' = Inr doc2 \<and>
   Data doc2 = body2 \<and> Version doc2 = 1 \<and> CreatedAt doc2 = 103"
  by (simp add: Put_state0 flush_state1 Get_state2 Put_state2 Get_state3)
    (simp add: state1_def doc1_def doc2_def)

subsection \<open>Deleting a flushed document\<close>

text \<open>
  Claim C2 says that \<^verbatim>\<open>Get\<close> returns not-found when the most recent operation on the key
  was a successful \<^verbatim>\<open>Delete\<close>, also when a flush lies between the operations.
  \<^verbatim>\<open>Delete\<close> (``removes a document from the database'') removes the key from the memtable
  and the indexes only; nothing removes it from the B-tree. In the scenario the document is
  put and flushed, the \<^verbatim>\<open>Delete\<close> succeeds, and \<^verbatim>\<open>Get\<close> still returns the document.
\<close>

theorem Delete_leaves_flushed_document:
  "Engine_Put (env_at 100) state0 ''users'' ''u1'' body1 = (None, state1) \<and>
   run_flush 101 [] state1 = Inr state2 \<and>
   Engine_Delete (env_at 103) state2 ''users'' ''u1'' = (None, state4) \<and>
   Engine_Get 104 state4 ''users'' ''u1'' = Inr doc1"
  by (simp add: Put_state0 flush_state1 Delete_state2 Get_state4)

subsection \<open>Queries over both stores\<close>

text \<open>
  Claim C4 says that \<^verbatim>\<open>Query\<close> returns at most one document per key, the memtable's
  version when the key is in the memtable and in the B-tree. After a put, a flush and a
  second put of the same key the key is in both stores, and the query with the empty filter
  returns both versions.
\<close>

theorem Query_returns_both_versions:
  "Memtable_Get 105 (memtable state3) ''users:u1'' = Some (ADoc doc2) \<and>
   BTree_Get (btree state3) ''users:u1'' = Inr (ADoc doc1) \<and>
   Engine_Query 105 state3 ''users'' [] = Inr [doc2, doc1] \<and>
   ID doc1 = ''u1'' \<and> ID doc2 = ''u1'' \<and> doc1 \<noteq> doc2"
  by (simp add: Query_state3) (simp add: state3_def mt_eval bt_eval doc1_def doc2_def)

text \<open>
  Claim C4, amended. In every state that the engine reaches from an empty B-tree image,
  the list returned by \<^verbatim>\<open>Query\<close> is the matching documents of the memtable, in key order,
  followed by the matching documents of the B-tree, in key order. Each of the two scans
  meets a key at most once, and nothing is removed across the scans: a key that is in both
  stores contributes the version of each store that matches, the memtable's first.
\<close>

theorem Query_concatenates_both_stores:
  assumes "e = foldl apply_op (NewEngine cfg log None coins) ops"
  shows "Engine_Query now e collection flt =
           fold (collect flt)
             (map snd (mem_hits e collection) @ map snd (disk_hits e collection)) (Inr []) \<and>
         (\<forall>docs. Engine_Query now e collection flt = Inr docs \<longrightarrow>
            docs = matching flt (map snd (mem_hits e collection)) @
                   matching flt (map snd (disk_hits e collection))) \<and>
         distinct (map fst (mem_hits e collection)) \<and>
         distinct (map fst (disk_hits e collection))"
proof -
  from assms have ok: "engine_ok e" by (simp add: foldl_apply_op_ok NewEngine_ok)
  have "docs = matching flt (map snd (mem_hits e collection)) @
               matching flt (map snd (disk_hits e collection))"
    if "Engine_Query now e collection flt = Inr docs" for docs
  proof -
    from that have "fold (collect flt)
        (map snd (mem_hits e collection) @ map snd (disk_hits e collection)) (Inr []) = Inr docs"
      by (simp only: Engine_Query_ok[OF ok])
    then have "docs = [] @ matching flt
        (map snd (mem_hits e collection) @ map snd (disk_hits e collection))"
      by (rule fold_collect_Inr)
    then show ?thesis by (simp add: matching_append)
  qed
  with ok show ?thesis by (simp add: Engine_Query_ok hits_distinct)
qed

theorem Query_concatenates_both_stores_witness:
  "state3 = foldl apply_op (NewEngine \<lparr>MemtableSize = 64\<rparr> [] None [])
     [Op_Put (env_at 100) ''users'' ''u1'' body1, Op_Flush 101 [],
      Op_Put (env_at 103) ''users'' ''u1'' body2] \<and>
   Engine_Query 105 state3 ''users'' [] = Inr [doc2, doc1] \<and>
   [doc2, doc1] = matching [] (map snd (mem_hits state3 ''users'')) @
                  matching [] (map snd (disk_hits state3 ''users'')) \<and>
   distinct (map fst (mem_hits state3 ''users'')) \<and>
   distinct (map fst (disk_hits state3 ''users''))"
  using Query_concatenates_both_stores[OF state3_reached, of 105 "''users''" "[]"]
    state3_reached Query_state3
  by simp

subsection \<open>Recovery from the log\<close>

text \<open>
  An engine with the default threshold of 1024 bytes receives two puts of different keys;
  no flush is spawned. \<open>restarted\<close> is the engine that \<^verbatim>\<open>NewEngine\<close> builds on the same
  directory after the process was killed.
\<close>

definition fresh :: Engine where
  "fresh = NewEngine \<lparr>MemtableSize = 1024\<rparr> [] None []"

definition doc_u1 :: Document where
  "doc_u1 = \<lparr>ID = ''u1'', Data = body1, CreatedAt = 100, UpdatedAt = 100, Version = 1\<rparr>"
definition doc_u2 :: Document where
  "doc_u2 = \<lparr>ID = ''u2'', Data = body2, CreatedAt = 101, UpdatedAt = 101, Version = 1\<rparr>"

definition put_u1 :: WALEntry where
  "put_u1 = \<lparr>entry_Type = WALPut, entry_Key = ''users:u1'', entry_Value = Some (ADoc doc_u1),
      entry_Timestamp = 100, entry_TxnID = []\<rparr>"
definition put_u2 :: WALEntry where
  "put_u2 = \<lparr>entry_Type = WALPut, entry_Key = ''users:u2'', entry_Value = Some (ADoc doc_u2),
      entry_Timestamp = 101, entry_TxnID = []\<rparr>"

definition two_puts :: Engine where
  "two_puts =
     \<lparr>config = \<lparr>MemtableSize = 1024\<rparr>,
      memtable = \<lparr>mt_nodes = [\<lparr>n_key = ''users:u1'', n_value = ADoc doc_u1, n_levels = 1, n_ttl = None\<rparr>,
                              \<lparr>n_key = ''users:u2'', n_value = ADoc doc_u2, n_levels = 1, n_ttl = None\<rparr>],
         mt_level = 0, mt_size = 144, mt_maxSize = 1024, mt_count = 2, mt_rand = []\<rparr>,
      wal = WriteEntries (NewWAL []) [put_u1, put_u2],
      btree = \<lparr>bt_root = Some (BTreeNode True [] [] [])\<rparr>,
      indexes = Map.empty, compacting = False, flushes_spawned = 0\<rparr>"

definition restarted :: Engine where
  "restarted = NewEngine \<lparr>MemtableSize = 1024\<rparr> (wal_file (wal two_puts)) None []"

lemma fresh_eq:
  "fresh =
     \<lparr>config = \<lparr>MemtableSize = 1024\<rparr>,
      memtable = \<lparr>mt_nodes = [], mt_level = 0, mt_size = 0, mt_maxSize = 1024, mt_count = 0,
         mt_rand = []\<rparr>,
      wal = \<lparr>wal_file = [], wal_writer = []\<rparr>,
      btree = \<lparr>bt_root = Some (BTreeNode True [] [] [])\<rparr>,
      indexes = Map.empty, compacting = False, flushes_spawned = 0\<rparr>"
  by (simp add: fresh_def NewEngine_def recover_def ReadEntries_empty NewMemtable_def
      NewBTree_def NewWAL_def)

lemma two_puts_reached:
  "Engine_Put (env_at 101) (snd (Engine_Put (env_at 100) fresh ''users'' ''u1'' body1))
     ''users'' ''u2'' body2 = (None, two_puts)"
  by (simp add: fresh_eq two_puts_def Engine_Put_def env_at_def Let_def mt_eval WriteEntry_Io_ok
      Encode_fresh entry_types_def updateIndexes_def doc_u1_def doc_u2_def put_u1_def put_u2_def
      NewWAL_def)

lemma first_put_ok: "fst (Engine_Put (env_at 100) fresh ''users'' ''u1'' body1) = None"
  by (simp add: Engine_Put_result env_at_def)

lemma two_puts_Get:
  "Engine_Get 102 two_puts ''users'' ''u1'' = Inr doc_u1"
  "Engine_Get 102 two_puts ''users'' ''u2'' = Inr doc_u2"
  by (simp_all add: two_puts_def Engine_Get_def Let_def mt_eval)

lemma restarted_eq:
  "restarted =
     \<lparr>config = \<lparr>MemtableSize = 1024\<rparr>,
      memtable = \<lparr>mt_nodes = [\<lparr>n_key = ''users:u1'', n_value = ADoc doc_u1, n_levels = 1, n_ttl = None\<rparr>],
         mt_level = 0, mt_size = 72, mt_maxSize = 1024, mt_count = 1, mt_rand = []\<rparr>,
      wal = \<lparr>wal_file = wal_file (WriteEntries (NewWAL []) [put_u1, put_u2]),
             wal_writer = []\<rparr>,
      btree = \<lparr>bt_root = Some (BTreeNode True [] [] [])\<rparr>,
      indexes = Map.empty, compacting = False, flushes_spawned = 0\<rparr>"
proof -
  have "ReadEntries \<lparr>wal_file = wal_file (WriteEntries (NewWAL []) [put_u1, put_u2]),
                       wal_writer = []\<rparr> = [put_u1]"
    using ReadEntries_first_only[of put_u1 "[put_u2]"] by (simp add: ReadEntries_def)
  then show ?thesis
    by (simp add: restarted_def two_puts_def NewEngine_def recover_def NewMemtable_def
        NewBTree_def NewWAL_def replay_def put_u1_def mt_eval del: WriteEntries.simps)
qed

lemma restarted_Get:
  "Engine_Get 200 restarted ''users'' ''u1'' = Inr doc_u1"
  "Engine_Get 200 restarted ''users'' ''u2'' = Inl Key_not_found"
  by (simp_all add: restarted_eq Engine_Get_def Let_def mt_eval bt_eval del: WriteEntries.simps)

text \<open>
  Claim C3 says that \<^verbatim>\<open>ReadEntries\<close> returns all entries appended by successful
  \<^verbatim>\<open>WriteEntry\<close> calls, in order, and that a recovered engine therefore holds the last
  value of every key written. Every \<^verbatim>\<open>WriteEntry\<close> makes its own \<^verbatim>\<open>gob.NewEncoder\<close>, which
  sends the definition of \<^verbatim>\<open>WALEntry\<close> again; the one decoder of \<^verbatim>\<open>ReadEntries\<close> fails
  on the second definition (``gob: duplicate type received'') and the loop breaks. Of any
  log written to a fresh file only the first entry is read (lemma
  \<open>ReadEntries_first_only\<close>). In the scenario both puts succeed and both documents can be
  read; after the restart the second key is gone.
\<close>

theorem recovery_reads_first_entry_only:
  "ReadEntries (WriteEntries (NewWAL []) [put_u1, put_u2]) = [put_u1] \<and>
   fst (Engine_Put (env_at 100) fresh ''users'' ''u1'' body1) = None \<and>
   Engine_Put (env_at 101) (snd (Engine_Put (env_at 100) fresh ''users'' ''u1'' body1))
     ''users'' ''u2'' body2 = (None, two_puts) \<and>
   wal two_puts = WriteEntries (NewWAL []) [put_u1, put_u2] \<and>
   Engine_Get 102 two_puts ''users'' ''u1'' = Inr doc_u1 \<and>
   Engine_Get 102 two_puts ''users'' ''u2'' = Inr doc_u2 \<and>
   restarted = NewEngine \<lparr>MemtableSize = 1024\<rparr> (wal_file (wal two_puts)) None [] \<and>
   Engine_Get 200 restarted ''users'' ''u1'' = Inr doc_u1 \<and>
   Engine_Get 200 restarted ''users'' ''u2'' = Inl Key_not_found"
  using ReadEntries_first_only[of put_u1 "[put_u2]"]
  by (simp add: first_put_ok two_puts_reached two_puts_Get restarted_Get
      del: WriteEntries.simps)
    (simp add: two_puts_def restarted_def del: WriteEntries.simps)

subsection \<open>Secondary indexes\<close>

text \<open>
  \<open>indexed log doc entries\<close> is an engine that holds the document \<open>doc\<close> under the key
  \<^verbatim>\<open>users:u1\<close> in its memtable and the one index \<^verbatim>\<open>users.email\<close> with the buckets
  \<open>entries\<close>.
\<close>

definition mail_a :: "string \<rightharpoonup> val" where "mail_a = [''email'' \<mapsto> VString ''a@x'']"
definition mail_b :: "string \<rightharpoonup> val" where "mail_b = [''email'' \<mapsto> VString ''b@x'']"

definition doc_a :: Document where
  "doc_a = \<lparr>ID = ''u1'', Data = mail_a, CreatedAt = 101, UpdatedAt = 101, Version = 1\<rparr>"
definition doc_b :: Document where
  "doc_b = \<lparr>ID = ''u1'', Data = mail_b, CreatedAt = 101, UpdatedAt = 102, Version = 2\<rparr>"

definition put_a :: WALEntry where
  "put_a = \<lparr>entry_Type = WALPut, entry_Key = ''users:u1'', entry_Value = Some (ADoc doc_a),
      entry_Timestamp = 101, entry_TxnID = []\<rparr>"
definition put_b :: WALEntry where
  "put_b = \<lparr>entry_Type = WALPut, entry_Key = ''users:u1'', entry_Value = Some (ADoc doc_b),
      entry_Timestamp = 102, entry_TxnID = []\<rparr>"
definition del_other :: WALEntry where
  "del_other = \<lparr>entry_Type = WALDelete, entry_Key = ''user:u1'', entry_Value = None,
      entry_Timestamp = 102, entry_TxnID = []\<rparr>"

definition indexed :: "gob_message list \<Rightarrow> Document \<Rightarrow> (string \<rightharpoonup> string list) \<Rightarrow> Engine" where
  "indexed log doc entries =
     \<lparr>config = \<lparr>MemtableSize = 1024\<rparr>,
      memtable = \<lparr>mt_nodes = [\<lparr>n_key = ''users:u1'', n_value = ADoc doc, n_levels = 1, n_ttl = None\<rparr>],
         mt_level = 0, mt_size = 72, mt_maxSize = 1024, mt_count = 1, mt_rand = []\<rparr>,
      wal = \<lparr>wal_file = log, wal_writer = []\<rparr>,
      btree = \<lparr>bt_root = Some (BTreeNode True [] [] [])\<rparr>,
      indexes = [''users.email'' \<mapsto> \<lparr>idx_field = ''email'', idx_entries = entries\<rparr>],
      compacting = False, flushes_spawned = 0\<rparr>"

definition index0 :: Engine where
  "index0 = NewEngine \<lparr>MemtableSize = 1024\<rparr> [] None []"

definition index1 :: Engine where
  "index1 = \<lparr>config = \<lparr>MemtableSize = 1024\<rparr>,
      memtable = \<lparr>mt_nodes = [], mt_level = 0, mt_size = 0, mt_maxSize = 1024, mt_count = 0, mt_rand = []\<rparr>,
      wal = \<lparr>wal_file = [], wal_writer = []\<rparr>,
      btree = \<lparr>bt_root = Some (BTreeNode True [] [] [])\<rparr>,
      indexes = [''users.email'' \<mapsto> \<lparr>idx_field = ''email'', idx_entries = Map.empty\<rparr>],
      compacting = False, flushes_spawned = 0\<rparr>"

definition log_a :: "gob_message list" where
  "log_a = [Gob_type_definition Gob_WALEntry, Gob_type_definition Gob_Document, Gob_value put_a]"

lemma index_step1: "CreateIndex (env_at 100) index0 ''users'' ''email'' = (None, index1)"
  by (simp add: index0_def index1_def NewEngine_def recover_def ReadEntries_empty NewMemtable_def
      NewBTree_def NewWAL_def CreateIndex_def buildIndex_def Let_def Memtable_Range_def bt_eval
      NewIndex_def env_at_def)

lemma index_step2:
  "Engine_Put (env_at 101) index1 ''users'' ''u1'' mail_a = (None, indexed log_a doc_a [''a@x'' \<mapsto> [''u1'']])"
  by (simp add: index1_def indexed_def Engine_Put_def env_at_def Let_def mt_eval WriteEntry_Io_ok
      Encode_fresh entry_types_def updateIndexes_def doc_a_def put_a_def log_a_def mail_a_def
      Index_Put_def fun_eq_iff)

lemma index_step3:
  "Engine_Delete (env_at 102) (indexed log_a doc_a [''a@x'' \<mapsto> [''u1'']]) ''user'' ''u1'' =
     (None, indexed (log_a @ [Gob_type_definition Gob_WALEntry, Gob_value del_other]) doc_a Map.empty)"
  by (simp add: indexed_def Engine_Delete_def env_at_def Let_def mt_eval WriteEntry_Io_ok
      Encode_fresh entry_types_def removeFromIndexes_def del_other_def Index_Delete_def fun_eq_iff)

lemma index_get3:
  "Engine_Get 103 (indexed log doc entries) ''users'' ''u1'' = Inr doc"
  by (simp add: indexed_def Engine_Get_def Let_def mt_eval)

lemma index_step4:
  "Engine_Put (env_at 102) (indexed log_a doc_a [''a@x'' \<mapsto> [''u1'']]) ''users'' ''u1'' mail_b =
     (None, indexed (log_a @ [Gob_type_definition Gob_WALEntry, Gob_type_definition Gob_Document,
                               Gob_value put_b]) doc_b
              [''a@x'' \<mapsto> [''u1''], ''b@x'' \<mapsto> [''u1'']])"
  by (simp add: indexed_def Engine_Put_def env_at_def Let_def mt_eval WriteEntry_Io_ok
      Encode_fresh entry_types_def updateIndexes_def doc_a_def doc_b_def put_b_def mail_b_def
      Index_Put_def fun_eq_iff)

text \<open>
  Claim C5 says that after \<^verbatim>\<open>CreateIndex(c, f)\<close> the index \<^verbatim>\<open>c.f\<close> maps every value to
  exactly the ids of the live documents of \<open>c\<close> with that value in field \<open>f\<close>, and that
  operations on another collection leave it unchanged. \<^verbatim>\<open>updateIndexes\<close> and
  \<^verbatim>\<open>removeFromIndexes\<close> select the indexes of a collection by
  \<^verbatim>\<open>indexKey[:len(collection)] == collection\<close>, which also holds for the index
  \<^verbatim>\<open>users.email\<close> and the collection \<^verbatim>\<open>user\<close>. In the scenario the index is created, the
  document \<^verbatim>\<open>users/u1\<close> is put and listed under its address; then
  \<^verbatim>\<open>Delete("user", "u1")\<close>, on a collection that holds nothing, empties the bucket while
  the document is still live. Apart from that, a \<^verbatim>\<open>Put\<close> that changes the address leaves
  the id in the bucket of the old address.
\<close>

theorem index_loses_live_document:
  "CreateIndex (env_at 100) index0 ''users'' ''email'' = (None, index1) \<and>
   Engine_Put (env_at 101) index1 ''users'' ''u1'' mail_a =
     (None, indexed log_a doc_a [''a@x'' \<mapsto> [''u1'']]) \<and>
   Engine_Delete (env_at 102) (indexed log_a doc_a [''a@x'' \<mapsto> [''u1'']]) ''user'' ''u1'' =
     (None, indexed (log_a @ [Gob_type_definition Gob_WALEntry, Gob_value del_other]) doc_a
              Map.empty) \<and>
   Engine_Get 103
     (indexed (log_a @ [Gob_type_definition Gob_WALEntry, Gob_value del_other]) doc_a Map.empty)
     ''users'' ''u1'' = Inr doc_a \<and>
   Data doc_a ''email'' = Some (VString ''a@x'') \<and>
   map_option (\<lambda>index. Index_Get index ''a@x'')
     (indexes (indexed (log_a @ [Gob_type_definition Gob_WALEntry, Gob_value del_other]) doc_a
                 Map.empty) ''users.email'') = Some [] \<and>
   Engine_Put (env_at 102) (indexed log_a doc_a [''a@x'' \<mapsto> [''u1'']]) ''users'' ''u1'' mail_b =
     (None, indexed (log_a @ [Gob_type_definition Gob_WALEntry,
                               Gob_type_definition Gob_Document, Gob_value put_b]) doc_b
              [''a@x'' \<mapsto> [''u1''], ''b@x'' \<mapsto> [''u1'']]) \<and>
   Data doc_b ''email'' = Some (VString ''b@x'') \<and>
   map_option (\<lambda>index. Index_Get index ''a@x'')
     (indexes (indexed (log_a @ [Gob_type_definition Gob_WALEntry,
                                  Gob_type_definition Gob_Document, Gob_value put_b]) doc_b
                 [''a@x'' \<mapsto> [''u1''], ''b@x'' \<mapsto> [''u1'']]) ''users.email'') = Some [''u1'']"
  by (simp add: index_step1 index_step2 index_step3 index_step4 index_get3)
    (simp add: indexed_def Index_Get_def doc_a_def doc_b_def mail_a_def mail_b_def)

subsection \<open>Empty collection names and ids\<close>

text \<open>
  Claim C8 says that \<^verbatim>\<open>Put\<close> and \<^verbatim>\<open>Delete\<close> with an empty collection or an empty id
  return an invalid-argument error rather than succeed. The engine does not look at its
  arguments: on the new engine all four calls succeed, and the document put under the
  empty collection, or under the empty id, is stored and returned by \<^verbatim>\<open>Get\<close>.
\<close>

theorem empty_names_are_accepted:
  "fst (Engine_Put (env_at 100) state0 [] ''u1'' body1) = None \<and>
   fst (Engine_Put (env_at 100) state0 ''users'' [] body1) = None \<and>
   fst (Engine_Delete (env_at 100) state0 [] ''u1'') = None \<and>
   fst (Engine_Delete (env_at 100) state0 ''users'' []) = None \<and>
   map_sum id Data
     (Engine_Get 101 (snd (Engine_Put (env_at 100) state0 [] ''u1'' body1)) [] ''u1'') =
     Inr body1 \<and>
   map_sum id Data
     (Engine_Get 101 (snd (Engine_Put (env_at 100) state0 ''users'' [] body1)) ''users'' []) =
     Inr body1"
  by (simp add: Engine_Put_result Engine_Delete_result env_at_def)
    (simp add: state0_eq Engine_Put_def Let_def mt_eval WriteEntry_Io_ok Encode_fresh
      entry_types_def updateIndexes_def Engine_Get_def)

text \<open>
  Claim C8, amended. \<^verbatim>\<open>Put\<close> and \<^verbatim>\<open>Delete\<close> treat an empty collection and an empty id
  like any other string: whatever the names, the call fails exactly when the write to the
  log fails, with that error, and there is no invalid-argument error. In every state that
  the engine reaches from an empty B-tree image a successful \<^verbatim>\<open>Put\<close> stores the document,
  and \<^verbatim>\<open>Get\<close> with the same names returns it.
\<close>

theorem Put_Delete_fail_only_with_the_log:
  assumes "e = foldl apply_op (NewEngine cfg log None coins) ops"
  shows "fst (Engine_Put env e collection docID data) =
           (case env_io env of
              Io_ok \<Rightarrow> None
            | Encode_fails \<Rightarrow> Some Wal_encode_failed
            | Flush_fails \<Rightarrow> Some Wal_flush_failed
            | Sync_fails \<Rightarrow> Some Wal_sync_failed) \<and>
         fst (Engine_Delete env e collection docID) =
           (case env_io env of
              Io_ok \<Rightarrow> None
            | Encode_fails \<Rightarrow> Some Wal_encode_failed
            | Flush_fails \<Rightarrow> Some Wal_flush_failed
            | Sync_fails \<Rightarrow> Some Wal_sync_failed) \<and>
         (env_io env = Io_ok \<longrightarrow>
            (\<exists>doc. Engine_Get now (snd (Engine_Put env e collection docID data)) collection docID =
                      Inr doc \<and> ID doc = docID \<and> Data doc = data))"
proof -
  from assms have ok: "engine_ok e" by (simp add: foldl_apply_op_ok NewEngine_ok)
  have "\<exists>doc. Engine_Get now (snd (Engine_Put env e collection docID data)) collection docID =
                Inr doc \<and> ID doc = docID \<and> Data doc = data"
    if io: "env_io env = Io_ok"
  proof -
    from io have "fst (Engine_Put env e collection docID data) = None"
      by (simp add: Engine_Put_result)
    then have "Engine_Put env e collection docID data =
        (None, snd (Engine_Put env e collection docID data))"
      by (metis prod.collapse)
    from Put_then_Get[OF ok this, of now] show ?thesis by blast
  qed
  then show ?thesis by (simp add: Engine_Put_result Engine_Delete_result)
qed

theorem Put_Delete_fail_only_with_the_log_witness:
  "state0 = foldl apply_op (NewEngine \<lparr>MemtableSize = 64\<rparr> [] None []) [] \<and>
   env_io (env_at 100) = Io_ok \<and>
   fst (Engine_Put (env_at 100) state0 [] ''u1'' body1) = None \<and>
   fst (Engine_Delete (env_at 100) state0 [] ''u1'') = None \<and>
   (\<exists>doc. Engine_Get 101 (snd (Engine_Put (env_at 100) state0 [] ''u1'' body1)) [] ''u1'' =
            Inr doc \<and> ID doc = ''u1'' \<and> Data doc = body1)"
proof -
  have r: "state0 = foldl apply_op (NewEngine \<lparr>MemtableSize = 64\<rparr> [] None []) []"
    by (simp add: state0_def)
  have io: "env_io (env_at 100) = Io_ok" by (simp add: env_at_def)
  from Put_Delete_fail_only_with_the_log[OF r, of "env_at 100" "[]" "''u1''" body1 101] r io
  show ?thesis by simp
qed

end
